theory Spec2Isabelle
  imports Complex_Main "HOL-Library.Sublist" "HOL-Library.AList" "HOL-Library.Multiset"
begin

section \<open>The model descriptor (types.ts)\<close>

text \<open>
  \<^verbatim>\<open>ModelLayer\<close> and \<^verbatim>\<open>ModelMetadata\<close> as the visualizer reads them. The optional
  fields of the interfaces that the visualizer never reads are left out. Strings are
  \<^typ>\<open>string\<close>, the list of the characters, of which the ASCII characters are the codes
  below 128; \<^verbatim>\<open>parameters\<close> is a JavaScript number that holds an integer.
\<close>

record ModelLayer =
  name :: string
  type :: string
  parameters :: int
  trainableParams :: int
  nonTrainableParams :: int
  activation :: "string option"

record ModelMetadata =
  layers :: "ModelLayer list"

text \<open>A layer with the mandatory fields only, for concrete inputs.\<close>

definition mkLayer :: "string \<Rightarrow> string \<Rightarrow> int \<Rightarrow> ModelLayer" where
  "mkLayer n t p =
     \<lparr>name = n, type = t, parameters = p, trainableParams = p, nonTrainableParams = 0,
      activation = None\<rparr>"

section \<open>JavaScript numbers\<close>

text \<open>
  A JavaScript number is a finite value, an infinity or NaN. Finite values are taken as
  reals: rounding of IEEE doubles is not part of the model, the special values are.
  Negative zero is not distinguished from zero.
\<close>

datatype jsnum = Fin real | PosInf | NegInf | NaN

fun js_div :: "jsnum \<Rightarrow> jsnum \<Rightarrow> jsnum" where
  "js_div NaN _ = NaN"
| "js_div _ NaN = NaN"
| "js_div (Fin a) (Fin b) =
     (if b \<noteq> 0 then Fin (a / b)
      else if a = 0 then NaN else if 0 < a then PosInf else NegInf)"
| "js_div (Fin a) PosInf = Fin 0"
| "js_div (Fin a) NegInf = Fin 0"
| "js_div PosInf (Fin b) = (if 0 \<le> b then PosInf else NegInf)"
| "js_div NegInf (Fin b) = (if 0 \<le> b then NegInf else PosInf)"
| "js_div PosInf PosInf = NaN"
| "js_div PosInf NegInf = NaN"
| "js_div NegInf PosInf = NaN"
| "js_div NegInf NegInf = NaN"

fun js_mul :: "jsnum \<Rightarrow> jsnum \<Rightarrow> jsnum" where
  "js_mul NaN _ = NaN"
| "js_mul _ NaN = NaN"
| "js_mul (Fin a) (Fin b) = Fin (a * b)"
| "js_mul (Fin a) PosInf = (if a = 0 then NaN else if 0 < a then PosInf else NegInf)"
| "js_mul (Fin a) NegInf = (if a = 0 then NaN else if 0 < a then NegInf else PosInf)"
| "js_mul PosInf (Fin b) = (if b = 0 then NaN else if 0 < b then PosInf else NegInf)"
| "js_mul NegInf (Fin b) = (if b = 0 then NaN else if 0 < b then NegInf else PosInf)"
| "js_mul PosInf PosInf = PosInf"
| "js_mul PosInf NegInf = NegInf"
| "js_mul NegInf PosInf = NegInf"
| "js_mul NegInf NegInf = PosInf"

fun js_add :: "jsnum \<Rightarrow> jsnum \<Rightarrow> jsnum" where
  "js_add NaN _ = NaN"
| "js_add _ NaN = NaN"
| "js_add (Fin a) (Fin b) = Fin (a + b)"
| "js_add (Fin a) PosInf = PosInf"
| "js_add (Fin a) NegInf = NegInf"
| "js_add PosInf (Fin b) = PosInf"
| "js_add NegInf (Fin b) = NegInf"
| "js_add PosInf PosInf = PosInf"
| "js_add PosInf NegInf = NaN"
| "js_add NegInf PosInf = NaN"
| "js_add NegInf NegInf = NegInf"

text \<open>\<^verbatim>\<open>Math.max(...xs)\<close> on finite arguments: \<^verbatim>\<open>-Infinity\<close> for no argument.\<close>

fun Math_max :: "real list \<Rightarrow> jsnum" where
  "Math_max [] = NegInf"
| "Math_max (x # xs) = (case Math_max xs of Fin m \<Rightarrow> Fin (max x m) | _ \<Rightarrow> Fin x)"

section \<open>The rendered surface\<close>

text \<open>
  The DOM below the canvas, as far as the visualizer writes and reads it. A layer node
  keeps the style values and texts that \<^verbatim>\<open>createLayerNode\<close> and the layouts assign, its
  three CSS classes, and the two variables its click listener closes over. A style value
  is the number the code formats into the string it assigns (\<^verbatim>\<open>`${width}px`\<close>); what a
  browser does with a string such as \<^verbatim>\<open>NaNpx\<close> is not modelled. The parameter label, the
  tooltip listeners and purely decorative styles are left out.
\<close>

datatype css_value = Px jsnum | Percent jsnum | CssNone

record layer_node =
  nd_layer :: ModelLayer
  nd_metadata :: ModelMetadata
  nd_animationDelay :: real
  nd_width :: "css_value option"
  nd_minWidth :: "css_value option"
  nd_maxWidth :: "css_value option"
  nd_sizeBar :: css_value
  nd_name :: string
  nd_type :: string
  nd_activation :: "string option"
  nd_left :: "real option"
  nd_top :: "real option"
  nd_selected :: bool
  nd_dimmed :: bool
  nd_highlighted :: bool

record connection_line =
  ln_left :: real
  ln_top :: real
  ln_width :: real
  ln_rotate :: real

text \<open>
  The children of the container: a layer node, the connector of the vertical layout, the
  arrow of the horizontal layout, the line of the circular layout, and a group of the tree
  layout (its header shows the type and the number of members).
\<close>

datatype element =
    LayerNode layer_node
  | LayerConnector string
  | LayerArrow
  | ConnectionLine connection_line
  | LayerGroup string nat "layer_node list"

record viz_container =
  vc_children :: "element list"
  vc_size :: "int option"
  vc_transform :: "(real \<times> jsnum \<times> jsnum) option"

section \<open>The Visualizer class\<close>

text \<open>
  The private fields of the class, and of the canvas element its height and its
  \<^verbatim>\<open>#viz-container\<close> child (\<open>None\<close> when the canvas holds none). The methods
  \<^verbatim>\<open>toggleLabels\<close>, \<^verbatim>\<open>toggleParams\<close> and \<^verbatim>\<open>exportAsImage\<close> write none of these and
  are left out.
\<close>

record visualizer =
  scale :: real
  translateX :: real
  translateY :: real
  isDragging :: bool
  startX :: real
  startY :: real
  startTranslateX :: real
  startTranslateY :: real
  currentLayout :: string
  currentMetadata :: "ModelMetadata option"
  searchTerm :: string
  canvasHeight :: "int option"
  container :: "viz_container option"

definition new_Visualizer :: visualizer where
  "new_Visualizer =
     \<lparr>scale = 1, translateX = 0, translateY = 0, isDragging = False, startX = 0, startY = 0,
      startTranslateX = 0, startTranslateY = 0, currentLayout = ''vertical'',
      currentMetadata = None, searchTerm = [], canvasHeight = None, container = None\<rparr>"

text \<open>\<^verbatim>\<open>render()\<close>: writes the transform of the container, when there is one.\<close>

definition render :: "visualizer \<Rightarrow> visualizer" where
  "render v =
     (case container v of
        None \<Rightarrow> v
      | Some c \<Rightarrow>
          v\<lparr>container := Some (c\<lparr>vc_transform :=
             Some (scale v, js_div (Fin (translateX v)) (Fin (scale v)),
                   js_div (Fin (translateY v)) (Fin (scale v)))\<rparr>)\<rparr>)"

text \<open>\<^verbatim>\<open>zoom(direction)\<close>: the direction is the string the caller passes.\<close>

definition zoom :: "string \<Rightarrow> visualizer \<Rightarrow> visualizer" where
  "zoom direction v =
     render (if direction = ''in'' then v\<lparr>scale := min 2 (scale v + 0.1)\<rparr>
             else v\<lparr>scale := max 0.5 (scale v - 0.1)\<rparr>)"

definition reset :: "visualizer \<Rightarrow> visualizer" where
  "reset v = render (v\<lparr>scale := 1, translateX := 0, translateY := 0\<rparr>)"

text \<open>The pointer listeners of \<^verbatim>\<open>setupEventListeners\<close>.\<close>

definition mousedown :: "real \<Rightarrow> real \<Rightarrow> visualizer \<Rightarrow> visualizer" where
  "mousedown clientX clientY v =
     v\<lparr>isDragging := True, startX := clientX, startY := clientY,
       startTranslateX := translateX v, startTranslateY := translateY v\<rparr>"

definition mousemove :: "real \<Rightarrow> real \<Rightarrow> visualizer \<Rightarrow> visualizer" where
  "mousemove clientX clientY v =
     (if isDragging v
      then render (v\<lparr>translateX := startTranslateX v + (clientX - startX v),
                      translateY := startTranslateY v + (clientY - startY v)\<rparr>)
      else v)"

definition mouseup :: "visualizer \<Rightarrow> visualizer" where
  "mouseup v = v\<lparr>isDragging := False\<rparr>"

definition mouseleave :: "visualizer \<Rightarrow> visualizer" where
  "mouseleave v = v\<lparr>isDragging := False\<rparr>"

section \<open>Sizing and node creation\<close>

text \<open>
  \<^verbatim>\<open>createLayerNode\<close> computes \<^verbatim>\<open>maxParams = Math.max(...metadata.layers.map(l => l.parameters))\<close>
  and \<^verbatim>\<open>relativeSize = layer.parameters / maxParams\<close>, a JavaScript division with no guard.
\<close>

definition maxParams :: "ModelMetadata \<Rightarrow> jsnum" where
  "maxParams metadata = Math_max (map (\<lambda>l. real_of_int (parameters l)) (layers metadata))"

definition relativeSize :: "ModelLayer \<Rightarrow> ModelMetadata \<Rightarrow> jsnum" where
  "relativeSize layer metadata = js_div (Fin (real_of_int (parameters layer))) (maxParams metadata)"

text \<open>The truth value of an optional string: \<^verbatim>\<open>undefined\<close> and the empty string are falsy.\<close>

definition truthy :: "string option \<Rightarrow> bool" where
  "truthy s = (case s of None \<Rightarrow> False | Some t \<Rightarrow> t \<noteq> [])"

text \<open>
  \<^verbatim>\<open>createLayerNode(layer, index, metadata)\<close>; the first argument is \<^verbatim>\<open>this.currentLayout\<close>,
  which the method reads. The activation label carries the activation behind a fixed prefix.
\<close>

definition createLayerNode :: "string \<Rightarrow> ModelLayer \<Rightarrow> nat \<Rightarrow> ModelMetadata \<Rightarrow> layer_node" where
  "createLayerNode layout layer index metadata =
     (let rel = relativeSize layer metadata;
          horizontal = (layout = ''horizontal'');
          width = (if horizontal then js_add (Fin 280) (js_mul (Fin (350 - 280)) rel)
                   else js_add (Fin 300) (js_mul (Fin (500 - 300)) rel))
      in \<lparr>nd_layer = layer, nd_metadata = metadata,
          nd_animationDelay = real index * 0.1,
          nd_width = Some (if horizontal then Px width else Percent (Fin 100)),
          nd_minWidth = (if horizontal then Some (Px width) else None),
          nd_maxWidth = Some (Px width),
          nd_sizeBar = Percent (js_mul rel (Fin 100)),
          nd_name = name layer, nd_type = type layer,
          nd_activation = (if truthy (activation layer) then activation layer else None),
          nd_left = None, nd_top = None,
          nd_selected = False, nd_dimmed = False, nd_highlighted = False\<rparr>)"

section \<open>The four layouts\<close>

text \<open>\<^verbatim>\<open>forEach((layer, index) => ...)\<close> runs over \<open>enumerate 0\<close> of the layers.\<close>

definition renderVerticalLayout :: "string \<Rightarrow> ModelMetadata \<Rightarrow> element list" where
  "renderVerticalLayout layout metadata =
     concat (map (\<lambda>(index, layer).
        (if index > 0 then [LayerConnector ''vertical''] else []) @
        [LayerNode (createLayerNode layout layer index metadata)])
       (enumerate 0 (layers metadata)))"

definition renderHorizontalLayout :: "string \<Rightarrow> ModelMetadata \<Rightarrow> element list" where
  "renderHorizontalLayout layout metadata =
     concat (map (\<lambda>(index, layer).
        (if index > 0 then [LayerArrow] else []) @
        [LayerNode (createLayerNode layout layer index metadata)])
       (enumerate 0 (layers metadata)))"

text \<open>
  \<^verbatim>\<open>Math.atan2(y, x)\<close> on finite arguments, and \<^verbatim>\<open>createConnectionLine\<close>, which turns the
  angle into degrees for the CSS rotation.
\<close>

definition Math_atan2 :: "real \<Rightarrow> real \<Rightarrow> real" where
  "Math_atan2 y x =
     (if 0 < x then arctan (y / x)
      else if x < 0 then (if 0 \<le> y then arctan (y / x) + pi else arctan (y / x) - pi)
      else if 0 < y then pi / 2
      else if y < 0 then - pi / 2
      else 0)"

definition createConnectionLine :: "real \<Rightarrow> real \<Rightarrow> real \<Rightarrow> real \<Rightarrow> connection_line" where
  "createConnectionLine x1 y1 x2 y2 =
     \<lparr>ln_left = x1, ln_top = y1,
      ln_width = sqrt ((x2 - x1)\<^sup>2 + (y2 - y1)\<^sup>2),
      ln_rotate = Math_atan2 (y2 - y1) (x2 - x1) * 180 / pi\<rparr>"

text \<open>
  The circular layout. The radius and the side of the square are computed by the same
  expressions in \<^verbatim>\<open>visualize\<close> and in \<^verbatim>\<open>renderCircularLayout\<close>; the angle expression
  occurs twice in the loop, for the node and for the next one.
\<close>

definition circularRadius :: "nat \<Rightarrow> int" where
  "circularRadius layerCount = min 300 (max 200 (int layerCount * 15))"

definition circularSize :: "nat \<Rightarrow> int" where
  "circularSize layerCount = circularRadius layerCount * 2 + 150 + 100"

definition layerAngle :: "nat \<Rightarrow> nat \<Rightarrow> real" where
  "layerAngle index layerCount = (real index / real layerCount) * 2 * pi - pi / 2"

definition renderCircularLayout :: "string \<Rightarrow> ModelMetadata \<Rightarrow> viz_container" where
  "renderCircularLayout layout metadata =
     (let layerCount = length (layers metadata);
          radius = real_of_int (circularRadius layerCount);
          size = circularSize layerCount;
          centerX = real_of_int size / 2;
          centerY = real_of_int size / 2
      in \<lparr>vc_children =
            concat (map (\<lambda>(index, layer).
               let angle = layerAngle index layerCount;
                   x = centerX + radius * cos angle;
                   y = centerY + radius * sin angle;
                   node = (createLayerNode layout layer index metadata)
                            \<lparr>nd_left := Some x, nd_top := Some y\<rparr>
               in LayerNode node #
                  (if int index < int layerCount - 1
                   then let nextAngle = layerAngle (index + 1) layerCount;
                            nextX = centerX + radius * cos nextAngle;
                            nextY = centerY + radius * sin nextAngle
                        in [ConnectionLine (createConnectionLine x y nextX nextY)]
                   else []))
              (enumerate 0 (layers metadata))),
          vc_size = Some size, vc_transform = None\<rparr>)"

text \<open>
  The tree layout groups the layers in \<^verbatim>\<open>layersByType\<close>, an object literal used as a
  dictionary. Its own properties are an association list in insertion order. A lookup
  also finds the properties inherited from \<^verbatim>\<open>Object.prototype\<close>, all truthy and none an
  array: for such a type \<^verbatim>\<open>!layersByType[layer.type]\<close> is false, no array is created, and
  \<^verbatim>\<open>layersByType[layer.type].push\<close> is not a function, a \<^verbatim>\<open>TypeError\<close>.
\<close>

datatype js_error = TypeError

definition inherited_names :: "string list" where
  "inherited_names =
     [''constructor'', ''hasOwnProperty'', ''isPrototypeOf'', ''propertyIsEnumerable'',
      ''toLocaleString'', ''toString'', ''valueOf'', ''__proto__'', ''__defineGetter__'',
      ''__defineSetter__'', ''__lookupGetter__'', ''__lookupSetter__'']"

fun groupByType ::
  "ModelLayer list \<Rightarrow> (string \<times> ModelLayer list) list \<Rightarrow> js_error + (string \<times> ModelLayer list) list"
where
  "groupByType [] layersByType = Inr layersByType"
| "groupByType (layer # rest) layersByType =
     (let created =
            (if map_of layersByType (type layer) = None \<and> type layer \<notin> set inherited_names
             then layersByType @ [(type layer, [])] else layersByType)
      in case map_of created (type layer) of
           None \<Rightarrow> Inl TypeError
         | Some members \<Rightarrow> groupByType rest (AList.update (type layer) (members @ [layer]) created))"

text \<open>
  \<^verbatim>\<open>Object.entries\<close> lists the keys that are array indices (canonical decimal numerals
  below \<open>2\<^sup>3\<^sup>2 - 1\<close>) first, in ascending numeric order, then the other keys in insertion
  order.
\<close>

definition digit_value :: "char \<Rightarrow> nat" where
  "digit_value c = of_char c - 48"

definition is_digit :: "char \<Rightarrow> bool" where
  "is_digit c = (48 \<le> (of_char c :: nat) \<and> (of_char c :: nat) \<le> 57)"

definition numeral_value :: "string \<Rightarrow> nat" where
  "numeral_value s = foldl (\<lambda>acc c. 10 * acc + digit_value c) 0 s"

definition is_array_index :: "string \<Rightarrow> bool" where
  "is_array_index s =
     (s \<noteq> [] \<and> list_all is_digit s \<and> (s = ''0'' \<or> hd s \<noteq> CHR ''0'') \<and>
      numeral_value s < 4294967295)"

definition Object_entries :: "(string \<times> 'a) list \<Rightarrow> (string \<times> 'a) list" where
  "Object_entries obj =
     sort_key (\<lambda>(k, v). numeral_value k) (filter (\<lambda>(k, v). is_array_index k) obj) @
     filter (\<lambda>(k, v). \<not> is_array_index k) obj"

definition renderTreeLayout :: "string \<Rightarrow> ModelMetadata \<Rightarrow> js_error + element list" where
  "renderTreeLayout layout metadata =
     (case groupByType (layers metadata) [] of
        Inl e \<Rightarrow> Inl e
      | Inr layersByType \<Rightarrow>
          Inr (map (\<lambda>(ty, members).
                 LayerGroup ty (length members)
                   (map (\<lambda>(index, layer).
                      (createLayerNode layout layer index metadata)\<lparr>nd_maxWidth := Some CssNone\<rparr>)
                     (enumerate 0 members)))
               (Object_entries layersByType)))"

section \<open>visualize and setLayout\<close>

text \<open>The height \<^verbatim>\<open>visualize\<close> gives the canvas: an if-chain with no final else.\<close>

definition autoSizeCanvas :: "string \<Rightarrow> nat \<Rightarrow> int option \<Rightarrow> int option" where
  "autoSizeCanvas layout layerCount height =
     (if layout = ''vertical'' then Some (max 600 (int layerCount * 150 + 100))
      else if layout = ''horizontal''
        then Some (max 600 (\<lceil>real layerCount / 3\<rceil> * 180 + 100))
      else if layout = ''circular'' then Some (circularSize layerCount)
      else if layout = ''tree'' then Some (min (400 + int layerCount * 10) 1000)
      else height)"

text \<open>The switch of \<^verbatim>\<open>visualize\<close> fills a fresh container; no case, no children.\<close>

definition renderByLayout :: "string \<Rightarrow> ModelMetadata \<Rightarrow> js_error + viz_container" where
  "renderByLayout layout metadata =
     (let fresh = \<lparr>vc_children = [], vc_size = None, vc_transform = None\<rparr>
      in if layout = ''vertical''
           then Inr (fresh\<lparr>vc_children := renderVerticalLayout layout metadata\<rparr>)
         else if layout = ''horizontal''
           then Inr (fresh\<lparr>vc_children := renderHorizontalLayout layout metadata\<rparr>)
         else if layout = ''circular'' then Inr (renderCircularLayout layout metadata)
         else if layout = ''tree''
           then (case renderTreeLayout layout metadata of
                   Inl e \<Rightarrow> Inl e
                 | Inr children \<Rightarrow> Inr (fresh\<lparr>vc_children := children\<rparr>))
         else Inr fresh)"

text \<open>
  \<^verbatim>\<open>visualize(metadata, layout?)\<close>. The result pairs the exception that escapes, if any,
  with the state the call leaves: when the tree layout throws, the canvas has been emptied
  and the container is never appended.
\<close>

definition visualize ::
  "ModelMetadata \<Rightarrow> string option \<Rightarrow> visualizer \<Rightarrow> js_error option \<times> visualizer" where
  "visualize metadata layout v =
     (let v1 = v\<lparr>currentMetadata := Some metadata,
                 currentLayout := (if truthy layout then the layout else currentLayout v)\<rparr>;
          v2 = v1\<lparr>container := None\<rparr>;
          layerCount = length (layers metadata);
          v3 = v2\<lparr>canvasHeight := autoSizeCanvas (currentLayout v2) layerCount (canvasHeight v2)\<rparr>
      in case renderByLayout (currentLayout v3) metadata of
           Inl e \<Rightarrow> (Some e, v3)
         | Inr c \<Rightarrow> (None, render (v3\<lparr>container := Some c\<rparr>)))"


section \<open>Search\<close>

text \<open>
  \<^verbatim>\<open>String.prototype.toLowerCase\<close>. On a string of ASCII characters (codes below 128) it
  turns the letters A to Z into a to z and keeps every other character: the lower-case
  letter is 32 above, which for the codes 65 to 90 is the same code with bit 5 set. On a
  string that holds any other character it applies the case conversion of the Unicode
  standard, which is neither limited to the letters A to Z nor done character by character.
  The tables of that conversion are no part of the repository: the conversion is the
  parameter \<open>unicode\<close> of \<open>toLowerCase\<close> and of \<open>search\<close>, and what is proved of them
  is proved for every such function. Then \<^verbatim>\<open>String.prototype.includes\<close>.
\<close>

definition toLowerChar :: "char \<Rightarrow> char" where
  "toLowerChar c =
     (if 65 \<le> (of_char c :: nat) \<and> (of_char c :: nat) \<le> 90
      then (case c of Char b0 b1 b2 b3 b4 b5 b6 b7 \<Rightarrow> Char b0 b1 b2 b3 b4 True b6 b7)
      else c)"

definition is_ascii :: "string \<Rightarrow> bool" where
  "is_ascii s = list_all (\<lambda>c. (of_char c :: nat) < 128) s"

definition toLowerCase :: "(string \<Rightarrow> string) \<Rightarrow> string \<Rightarrow> string" where
  "toLowerCase unicode s = (if is_ascii s then map toLowerChar s else unicode s)"

fun js_includes :: "string \<Rightarrow> string \<Rightarrow> bool" where
  "js_includes [] t = (t = [])"
| "js_includes (c # s) t = (prefix t (c # s) \<or> js_includes s t)"

text \<open>The layer nodes of a container in document order, and a map over them.\<close>

fun layer_nodes :: "element list \<Rightarrow> layer_node list" where
  "layer_nodes [] = []"
| "layer_nodes (LayerNode n # es) = n # layer_nodes es"
| "layer_nodes (LayerGroup ty cnt ns # es) = ns @ layer_nodes es"
| "layer_nodes (e # es) = layer_nodes es"

fun map_nodes :: "(layer_node \<Rightarrow> layer_node) \<Rightarrow> element list \<Rightarrow> element list" where
  "map_nodes f [] = []"
| "map_nodes f (LayerNode n # es) = LayerNode (f n) # map_nodes f es"
| "map_nodes f (LayerGroup ty cnt ns # es) = LayerGroup ty cnt (map f ns) # map_nodes f es"
| "map_nodes f (e # es) = e # map_nodes f es"

definition canvas_nodes :: "visualizer \<Rightarrow> layer_node list" where
  "canvas_nodes v = (case container v of None \<Rightarrow> [] | Some c \<Rightarrow> layer_nodes (vc_children c))"

definition search_node ::
  "(string \<Rightarrow> string) \<Rightarrow> string \<Rightarrow> string \<Rightarrow> layer_node \<Rightarrow> layer_node" where
  "search_node unicode term lowered n =
     (let layerName = toLowerCase unicode (nd_name n);
          layerType = toLowerCase unicode (nd_type n)
      in if term = [] \<or> js_includes layerName lowered \<or> js_includes layerType lowered
         then n\<lparr>nd_dimmed := False, nd_highlighted := (term \<noteq> [])\<rparr>
         else n\<lparr>nd_dimmed := True, nd_highlighted := False\<rparr>)"

definition search :: "(string \<Rightarrow> string) \<Rightarrow> string \<Rightarrow> visualizer \<Rightarrow> visualizer" where
  "search unicode term v =
     (let v1 = v\<lparr>searchTerm := toLowerCase unicode term\<rparr>
      in v1\<lparr>container :=
           map_option (\<lambda>c. c\<lparr>vc_children :=
                               map_nodes (search_node unicode term (searchTerm v1)) (vc_children c)\<rparr>)
             (container v1)\<rparr>)"

section \<open>Selection\<close>

text \<open>
  The click listener of a layer node, for the node at position \<open>k\<close> in document order
  and the click count \<^verbatim>\<open>e.detail\<close>; it returns the events dispatched on the canvas. A
  position that holds no node has no listener.
\<close>

datatype event = LayerClick ModelLayer | LayerSelection nat "ModelLayer list"

fun update_node :: "nat \<Rightarrow> (layer_node \<Rightarrow> layer_node) \<Rightarrow> element list \<Rightarrow> element list" where
  "update_node k f [] = []"
| "update_node k f (LayerNode n # es) =
     (if k = 0 then LayerNode (f n) # es else LayerNode n # update_node (k - 1) f es)"
| "update_node k f (LayerGroup ty cnt ns # es) =
     (if k < length ns then LayerGroup ty cnt (ns[k := f (ns ! k)]) # es
      else LayerGroup ty cnt ns # update_node (k - length ns) f es)"
| "update_node k f (e # es) = e # update_node k f es"

definition toggle_selected :: "nat \<Rightarrow> visualizer \<Rightarrow> visualizer" where
  "toggle_selected k v =
     v\<lparr>container :=
         map_option (\<lambda>c. c\<lparr>vc_children :=
                             update_node k (\<lambda>n. n\<lparr>nd_selected := \<not> nd_selected n\<rparr>) (vc_children c)\<rparr>)
           (container v)\<rparr>"

definition click :: "nat \<Rightarrow> nat \<Rightarrow> visualizer \<Rightarrow> visualizer \<times> event list" where
  "click k detail v =
     (if length (canvas_nodes v) \<le> k then (v, [])
      else let node = canvas_nodes v ! k
           in if detail = 2 then (v, [LayerClick (nd_layer node)])
              else let v' = toggle_selected k v;
                       selectedLayers = filter nd_selected (canvas_nodes v')
                   in (v', [LayerSelection (length selectedLayers)
                              (List.map_filter
                                 (\<lambda>n. find (\<lambda>l. name l = nd_name n) (layers (nd_metadata node)))
                                 selectedLayers)]))"

text \<open>
  The listeners the host application (\<^verbatim>\<open>initVisualizer\<close> and \<^verbatim>\<open>handleLayerSelection\<close> in
  main.ts) attaches for the two events, as the list of the interface calls they make.
\<close>

datatype host_action =
    ShowModal string
  | HideModal string
  | RenderComparison "ModelLayer list"
  | ShowToast string string
  | ShowLayerDetail ModelLayer

definition handleLayerSelection :: "nat \<Rightarrow> ModelLayer list \<Rightarrow> host_action list" where
  "handleLayerSelection cnt ls =
     (if 2 \<le> cnt \<and> cnt \<le> 3
        then [ShowModal ''comparison-modal'', RenderComparison ls]
      else if 3 < cnt
        then [ShowToast ''warning'' ''Select up to 3 layers to compare'']
      else [HideModal ''comparison-modal''])"

fun host_listener :: "event \<Rightarrow> host_action list" where
  "host_listener (LayerSelection cnt ls) = handleLayerSelection cnt ls"
| "host_listener (LayerClick layer) = [ShowLayerDetail layer]"

section \<open>Notions used to state the properties\<close>

text \<open>
  The selection is the set of positions, in document order, of the nodes that carry the
  class \<^verbatim>\<open>selected\<close>.
\<close>

definition selected_set :: "visualizer \<Rightarrow> nat set" where
  "selected_set v = {i. i < length (canvas_nodes v) \<and> nd_selected (canvas_nodes v ! i)}"




text \<open>
  A node as \<^verbatim>\<open>createLayerNode\<close> leaves it: it shows the name and type of its layer, its
  listener closes over the rendered model, and it carries no class.
\<close>

definition fresh_node :: "ModelMetadata \<Rightarrow> layer_node \<Rightarrow> bool" where
  "fresh_node metadata n =
     (nd_metadata n = metadata \<and> nd_name n = name (nd_layer n) \<and> nd_type n = type (nd_layer n) \<and>
      nd_layer n \<in> set (layers metadata) \<and>
      \<not> nd_selected n \<and> \<not> nd_dimmed n \<and> \<not> nd_highlighted n)"

text \<open>The node the circular layout places for the layer at an index.\<close>

definition circularNode :: "string \<Rightarrow> ModelMetadata \<Rightarrow> nat \<Rightarrow> ModelLayer \<Rightarrow> layer_node" where
  "circularNode layout metadata index layer =
     (let layerCount = length (layers metadata);
          radius = real_of_int (circularRadius layerCount);
          center = real_of_int (circularSize layerCount) / 2
      in (createLayerNode layout layer index metadata)
           \<lparr>nd_left := Some (center + radius * cos (layerAngle index layerCount)),
            nd_top := Some (center + radius * sin (layerAngle index layerCount))\<rparr>)"

text \<open>The children of the container, the connectors among them, and the lines in order.\<close>

definition canvas_children :: "visualizer \<Rightarrow> element list" where
  "canvas_children v = (case container v of None \<Rightarrow> [] | Some c \<Rightarrow> vc_children c)"

fun is_connector :: "element \<Rightarrow> bool" where
  "is_connector (LayerConnector d) = True"
| "is_connector LayerArrow = True"
| "is_connector (ConnectionLine line) = True"
| "is_connector e = False"

fun connection_lines :: "element list \<Rightarrow> connection_line list" where
  "connection_lines [] = []"
| "connection_lines (ConnectionLine line # es) = line # connection_lines es"
| "connection_lines (e # es) = connection_lines es"

text \<open>The line the circular layout draws from the node at an index to the next one.\<close>

definition circularLine :: "ModelMetadata \<Rightarrow> nat \<Rightarrow> connection_line" where
  "circularLine metadata index =
     (let layerCount = length (layers metadata);
          radius = real_of_int (circularRadius layerCount);
          center = real_of_int (circularSize layerCount) / 2
      in createConnectionLine
           (center + radius * cos (layerAngle index layerCount))
           (center + radius * sin (layerAngle index layerCount))
           (center + radius * cos (layerAngle (index + 1) layerCount))
           (center + radius * sin (layerAngle (index + 1) layerCount)))"

text \<open>
  The record the click listener finds for a node: \<^verbatim>\<open>metadata.layers.find(l => l.name === name)\<close>
  with the text of the node's name element.
\<close>

definition resolve :: "ModelMetadata \<Rightarrow> layer_node \<Rightarrow> ModelLayer option" where
  "resolve metadata n = find (\<lambda>l. name l = nd_name n) (layers metadata)"

text \<open>
  A state shows a model when every node on the canvas was created for a layer of that model:
  its listener closes over the model and its name element shows the name of its layer. In a
  chain layout the nodes are, in document order, the layers in model order.
\<close>

definition rendered :: "ModelMetadata \<Rightarrow> visualizer \<Rightarrow> bool" where
  "rendered metadata v =
     (\<forall>n \<in> set (canvas_nodes v).
        nd_metadata n = metadata \<and> nd_name n = name (nd_layer n) \<and>
        nd_layer n \<in> set (layers metadata))"

definition chain_rendered :: "ModelMetadata \<Rightarrow> visualizer \<Rightarrow> bool" where
  "chain_rendered metadata v =
     (rendered metadata v \<and> map nd_layer (canvas_nodes v) = layers metadata)"

text \<open>
  A concrete model (three layers named conv1, bn1 and fc) and the state after a new
  visualizer renders it in the default layout.
\<close>

definition demo_model :: ModelMetadata where
  "demo_model =
     \<lparr>layers = [mkLayer ''conv1'' ''Conv2D'' 320, mkLayer ''bn1'' ''BatchNorm'' 64,
                mkLayer ''fc'' ''Dense'' 1000]\<rparr>"

definition demo_view :: visualizer where
  "demo_view = snd (visualize demo_model None new_Visualizer)"

text \<open>
  Further concrete models: two layers without parameters; a layer whose type is the name of
  a property every object inherits; four layers for the circle; two types that alternate;
  two different layers with one name. And the states that show them.
\<close>

definition zero_model :: ModelMetadata where
  "zero_model = \<lparr>layers = [mkLayer ''a'' ''Dense'' 0, mkLayer ''b'' ''Dense'' 0]\<rparr>"

definition inherited_model :: ModelMetadata where
  "inherited_model = \<lparr>layers = [mkLayer ''a'' ''Dense'' 10, mkLayer ''b'' ''constructor'' 5]\<rparr>"

definition ring_model :: ModelMetadata where
  "ring_model =
     \<lparr>layers = [mkLayer ''in'' ''Input'' 0, mkLayer ''conv'' ''Conv2D'' 320,
                mkLayer ''fc'' ''Dense'' 1000, mkLayer ''out'' ''Softmax'' 0]\<rparr>"

definition tree_model :: ModelMetadata where
  "tree_model =
     \<lparr>layers = [mkLayer ''a'' ''Conv2D'' 320, mkLayer ''b'' ''ReLU'' 0, mkLayer ''c'' ''Conv2D'' 640]\<rparr>"

definition dup_model :: ModelMetadata where
  "dup_model = \<lparr>layers = [mkLayer ''fc'' ''Dense'' 10, mkLayer ''fc'' ''Dense'' 20]\<rparr>"

definition tree_view :: visualizer where
  "tree_view = snd (visualize tree_model (Some ''tree'') new_Visualizer)"

definition dup_view :: visualizer where
  "dup_view = snd (visualize dup_model None new_Visualizer)"

definition ring_view :: visualizer where
  "ring_view = snd (visualize ring_model (Some ''horizontal'') new_Visualizer)"

section \<open>Zoom\<close>

lemma scale_render [simp]: "scale (render v) = scale v"
  by (simp add: render_def split: option.splits)

lemma isDragging_render [simp]: "isDragging (render v) = isDragging v"
  by (simp add: render_def split: option.splits)

lemma scale_zoom_in: "scale (zoom ''in'' v) = min 2 (scale v + 0.1)"
  by (simp add: zoom_def)

lemma scale_zoom_out: "scale (zoom ''out'' v) = max 0.5 (scale v - 0.1)"
  by (simp add: zoom_def)

lemma scale_zoom_in_pow:
  "scale v \<le> 2 \<Longrightarrow> scale ((zoom ''in'' ^^ k) v) = min 2 (scale v + real k / 10)"
proof (induction k)
  case 0
  then show ?case by simp
next
  case (Suc k)
  then show ?case
    by (simp add: scale_zoom_in min_def add_divide_distrib)
qed

lemma scale_zoom_out_pow:
  "1 / 2 \<le> scale v \<Longrightarrow> scale ((zoom ''out'' ^^ k) v) = max (1 / 2) (scale v - real k / 10)"
proof (induction k)
  case 0
  then show ?case by simp
next
  case (Suc k)
  then show ?case
    by (simp add: scale_zoom_out max_def add_divide_distrib diff_divide_distrib)
qed

lemma scale_zoom_range:
  "1 / 2 \<le> scale v \<Longrightarrow> scale v \<le> 2 \<Longrightarrow>
   1 / 2 \<le> scale (zoom d v) \<and> scale (zoom d v) \<le> 2"
  by (simp add: zoom_def min_def max_def)

lemma scale_fold_zoom_range:
  "1 / 2 \<le> scale v \<Longrightarrow> scale v \<le> 2 \<Longrightarrow>
   1 / 2 \<le> scale (fold zoom ds v) \<and> scale (fold zoom ds v) \<le> 2"
proof (induction ds arbitrary: v)
  case Nil
  then show ?case by simp
next
  case (Cons d ds)
  from scale_zoom_range [OF Cons.prems, of d] Cons.IH [of "zoom d v"]
  show ?case by simp
qed

text \<open>
  C9. \<^verbatim>\<open>zoom('in')\<close> sets the scale to \<open>min 2 (scale + 0.1)\<close> and \<^verbatim>\<open>zoom('out')\<close> to
  \<open>max 0.5 (scale - 0.1)\<close>; the drag state is neither read nor written. From scale 1,
  twenty steps in end at 2 and no step on the way exceeds 2, twenty steps out end at 0.5
  and no step goes below it; from a scale in [0.5, 2] every sequence of zoom operations
  keeps the scale in [0.5, 2].
\<close>

theorem zoom_steps_clamped:
  "scale (zoom ''in'' v) = min 2 (scale v + 0.1) \<and>
   scale (zoom ''out'' v) = max 0.5 (scale v - 0.1) \<and>
   isDragging (zoom d v) = isDragging v \<and>
   scale (zoom d (v\<lparr>isDragging := b\<rparr>)) = scale (zoom d v) \<and>
   (scale v = 1 \<longrightarrow>
      scale ((zoom ''in'' ^^ 20) v) = 2 \<and> (\<forall>k. scale ((zoom ''in'' ^^ k) v) \<le> 2) \<and>
      scale ((zoom ''out'' ^^ 20) v) = 0.5 \<and> (\<forall>k. 0.5 \<le> scale ((zoom ''out'' ^^ k) v))) \<and>
   (0.5 \<le> scale v \<and> scale v \<le> 2 \<longrightarrow>
      0.5 \<le> scale (fold zoom ds v) \<and> scale (fold zoom ds v) \<le> 2)"
proof -
  have dir: "scale (zoom ''in'' v) = min 2 (scale v + 0.1)"
    "scale (zoom ''out'' v) = max 0.5 (scale v - 0.1)"
    by (simp_all add: zoom_def)
  have drag: "isDragging (zoom d v) = isDragging v"
    "scale (zoom d (v\<lparr>isDragging := b\<rparr>)) = scale (zoom d v)"
    by (simp_all add: zoom_def)
  have twenty: "scale ((zoom ''in'' ^^ 20) v) = 2 \<and> (\<forall>k. scale ((zoom ''in'' ^^ k) v) \<le> 2) \<and>
      scale ((zoom ''out'' ^^ 20) v) = 0.5 \<and> (\<forall>k. 0.5 \<le> scale ((zoom ''out'' ^^ k) v))"
    if one: "scale v = 1"
  proof -
    have up: "scale ((zoom ''in'' ^^ k) v) = min 2 (1 + real k / 10)" for k
      using scale_zoom_in_pow [of v k] one by simp
    have down: "scale ((zoom ''out'' ^^ k) v) = max (1 / 2) (1 - real k / 10)" for k
      using scale_zoom_out_pow [of v k] one by simp
    show ?thesis
      by (simp add: up down)
  qed
  have range: "0.5 \<le> scale (fold zoom ds v) \<and> scale (fold zoom ds v) \<le> 2"
    if "0.5 \<le> scale v \<and> scale v \<le> 2"
    using scale_fold_zoom_range [of v ds] that by simp
  from dir drag twenty range show ?thesis by blast
qed

theorem zoom_steps_clamped_witness:
  "scale ((zoom ''in'' ^^ 20) new_Visualizer) = 2 \<and>
   scale ((zoom ''out'' ^^ 20) new_Visualizer) = 0.5 \<and>
   scale (zoom ''in'' new_Visualizer) = 1.1 \<and>
   0.5 \<le> scale (fold zoom [''in'', ''out'', ''out''] new_Visualizer) \<and>
   scale (fold zoom [''in'', ''out'', ''out''] new_Visualizer) \<le> 2"
proof -
  have one: "scale new_Visualizer = 1"
    by (simp add: new_Visualizer_def)
  show ?thesis
    using zoom_steps_clamped [of new_Visualizer d b "[''in'', ''out'', ''out'']"] one
    by simp
qed

section \<open>The node list of a container\<close>

lemma layer_nodes_append: "layer_nodes (es @ fs) = layer_nodes es @ layer_nodes fs"
  by (induction es rule: layer_nodes.induct) simp_all

lemma layer_nodes_map_nodes: "layer_nodes (map_nodes f es) = map f (layer_nodes es)"
  by (induction es rule: layer_nodes.induct) simp_all

lemma layer_nodes_update_node:
  "k < length (layer_nodes es) \<Longrightarrow>
   layer_nodes (update_node k f es) = (layer_nodes es)[k := f (layer_nodes es ! k)]"
proof (induction k f es rule: update_node.induct)
  case (2 k f n es)
  then show ?case by (cases k) simp_all
next
  case (3 k f ty cnt ns es)
  then show ?case by (simp add: list_update_append nth_append)
qed simp_all

lemma update_node_compose:
  "update_node k f (update_node k g es) = update_node k (\<lambda>n. f (g n)) es"
  by (induction k g es rule: update_node.induct) simp_all

lemma update_node_ident:
  "(\<And>n. f n = n) \<Longrightarrow> update_node k f es = es"
  by (induction k f es rule: update_node.induct) simp_all

lemma js_includes_sublist: "js_includes s t \<longleftrightarrow> sublist t s"
  by (induction s) (simp_all add: sublist_Cons_right)


section \<open>The nodes the layouts create\<close>

lemma fresh_createLayerNode:
  "layer \<in> set (layers metadata) \<Longrightarrow> fresh_node metadata (createLayerNode layout layer index metadata)"
  by (simp add: fresh_node_def createLayerNode_def Let_def)

lemma layer_nodes_concat_map:
  "layer_nodes (concat (map f xs)) = concat (map (\<lambda>x. layer_nodes (f x)) xs)"
  by (induction xs) (simp_all add: layer_nodes_append)

lemma layer_nodes_renderVerticalLayout:
  "layer_nodes (renderVerticalLayout layout metadata) =
     map (\<lambda>(index, layer). createLayerNode layout layer index metadata) (enumerate 0 (layers metadata))"
proof -
  have "concat (map (\<lambda>x. layer_nodes (case x of (index, layer) \<Rightarrow>
           (if index > 0 then [LayerConnector ''vertical''] else []) @
           [LayerNode (createLayerNode layout layer index metadata)])) xs) =
        map (\<lambda>(index, layer). createLayerNode layout layer index metadata) xs" for xs
    by (induction xs) (auto simp add: layer_nodes_append)
  then show ?thesis
    by (simp add: renderVerticalLayout_def layer_nodes_concat_map)
qed

lemma layer_nodes_renderHorizontalLayout:
  "layer_nodes (renderHorizontalLayout layout metadata) =
     map (\<lambda>(index, layer). createLayerNode layout layer index metadata) (enumerate 0 (layers metadata))"
proof -
  have "concat (map (\<lambda>x. layer_nodes (case x of (index, layer) \<Rightarrow>
           (if index > 0 then [LayerArrow] else []) @
           [LayerNode (createLayerNode layout layer index metadata)])) xs) =
        map (\<lambda>(index, layer). createLayerNode layout layer index metadata) xs" for xs
    by (induction xs) (auto simp add: layer_nodes_append)
  then show ?thesis
    by (simp add: renderHorizontalLayout_def layer_nodes_concat_map)
qed

lemma layer_nodes_renderCircularLayout:
  "layer_nodes (vc_children (renderCircularLayout layout metadata)) =
     map (\<lambda>(index, layer). circularNode layout metadata index layer) (enumerate 0 (layers metadata))"
proof -
  have "layer_nodes (concat (map f xs)) = map g xs"
    if "\<And>x. x \<in> set xs \<Longrightarrow> layer_nodes (f x) = [g x]" for f g and xs :: "(nat \<times> ModelLayer) list"
    using that by (induction xs) (simp_all add: layer_nodes_append)
  then show ?thesis
    by (simp add: renderCircularLayout_def Let_def circularNode_def split_def)
qed

lemma set_concat_update_subset:
  "set (concat (map snd (AList.update k v al))) \<subseteq> set (concat (map snd al)) \<union> set v"
  by (induction al) auto

lemma map_of_Some_subset:
  "map_of al k = Some g \<Longrightarrow> set g \<subseteq> set (concat (map snd al))"
  by (induction al) (auto split: if_splits)

lemma groupByType_members:
  "groupByType ls acc = Inr obj \<Longrightarrow>
   set (concat (map snd obj)) \<subseteq> set (concat (map snd acc)) \<union> set ls"
proof (induction ls arbitrary: acc)
  case Nil
  then show ?case by simp
next
  case (Cons layer rest)
  define created where "created =
     (if map_of acc (type layer) = None \<and> type layer \<notin> set inherited_names
      then acc @ [(type layer, [])] else acc)"
  have cr: "set (concat (map snd created)) = set (concat (map snd acc))"
    by (simp add: created_def)
  from Cons.prems obtain members where
    m: "map_of created (type layer) = Some members" and
    g: "groupByType rest (AList.update (type layer) (members @ [layer]) created) = Inr obj"
    by (auto simp add: created_def [symmetric] Let_def split: option.splits)
  from Cons.IH [OF g] set_concat_update_subset [of "type layer" "members @ [layer]" created]
    map_of_Some_subset [OF m] cr
  show ?case by auto
qed

lemma Object_entries_set: "set (Object_entries obj) = set obj"
  by (auto simp add: Object_entries_def)

lemma fresh_renderTreeLayout:
  assumes "renderTreeLayout layout metadata = Inr es"
  shows "\<forall>n \<in> set (layer_nodes es). fresh_node metadata n"
proof -
  from assms obtain obj where obj: "groupByType (layers metadata) [] = Inr obj"
    and es: "es = map (\<lambda>(ty, members).
                 LayerGroup ty (length members)
                   (map (\<lambda>(index, layer).
                      (createLayerNode layout layer index metadata)\<lparr>nd_maxWidth := Some CssNone\<rparr>)
                     (enumerate 0 members)))
               (Object_entries obj)"
    by (auto simp add: renderTreeLayout_def split: sum.splits)
  have sub: "set (concat (map snd obj)) \<subseteq> set (layers metadata)"
    using groupByType_members [OF obj] by simp
  have "fresh_node metadata n"
    if "n \<in> set (layer_nodes (map (\<lambda>(ty, members).
                 LayerGroup ty (length members)
                   (map (\<lambda>(index, layer).
                      (createLayerNode layout layer index metadata)\<lparr>nd_maxWidth := Some CssNone\<rparr>)
                     (enumerate 0 members))) gs))"
      and "set gs \<subseteq> set obj" for n gs
    using that
  proof (induction gs)
    case Nil
    then show ?case by simp
  next
    case (Cons g gs)
    obtain ty members where gp: "g = (ty, members)" by (cases g)
    from Cons.prems(2) gp have "set members \<subseteq> set (layers metadata)"
      using sub by force
    then have "fresh_node metadata ((createLayerNode layout layer index metadata)\<lparr>nd_maxWidth := Some CssNone\<rparr>)"
      if "(index, layer) \<in> set (enumerate 0 members)" for index layer
    proof -
      from that have "layer \<in> set members"
        by (auto simp add: in_set_enumerate_eq)
      with \<open>set members \<subseteq> set (layers metadata)\<close> have "layer \<in> set (layers metadata)"
        by blast
      from fresh_createLayerNode [OF this, of layout index] show ?thesis
        by (simp add: fresh_node_def)
    qed
    with Cons gp show ?case by auto
  qed
  then show ?thesis
    by (simp add: es Object_entries_set)
qed

lemma fresh_renderByLayout:
  assumes "renderByLayout layout metadata = Inr c"
  shows "\<forall>n \<in> set (layer_nodes (vc_children c)). fresh_node metadata n"
proof -
  have en: "layer \<in> set (layers metadata)" if "(index, layer) \<in> set (enumerate 0 (layers metadata))"
    for index layer
    using that by (auto simp add: in_set_enumerate_eq)
  consider (v) "layout = ''vertical''" | (h) "layout = ''horizontal''" | (c) "layout = ''circular''"
    | (t) "layout = ''tree''"
    | (o) "layout \<noteq> ''vertical''" "layout \<noteq> ''horizontal''" "layout \<noteq> ''circular''" "layout \<noteq> ''tree''"
    by blast
  then show ?thesis
  proof cases
    case v
    with assms have "vc_children c = renderVerticalLayout layout metadata"
      by (auto simp add: renderByLayout_def)
    then show ?thesis
      by (auto simp add: layer_nodes_renderVerticalLayout fresh_createLayerNode dest: en)
  next
    case h
    with assms have "vc_children c = renderHorizontalLayout layout metadata"
      by (auto simp add: renderByLayout_def)
    then show ?thesis
      by (auto simp add: layer_nodes_renderHorizontalLayout fresh_createLayerNode dest: en)
  next
    case c
    with assms have "c = renderCircularLayout layout metadata"
      by (auto simp add: renderByLayout_def)
    moreover have "fresh_node metadata (circularNode layout metadata index layer)"
      if "layer \<in> set (layers metadata)" for index layer
      using fresh_createLayerNode [OF that, of layout index]
      by (simp add: circularNode_def fresh_node_def Let_def)
    ultimately show ?thesis
      by (auto simp add: layer_nodes_renderCircularLayout dest: en)
  next
    case t
    with assms obtain es where "renderTreeLayout layout metadata = Inr es" "vc_children c = es"
      by (auto simp add: renderByLayout_def split: sum.splits)
    then show ?thesis
      using fresh_renderTreeLayout by blast
  next
    case o
    with assms have "vc_children c = []"
      by (auto simp add: renderByLayout_def)
    then show ?thesis by simp
  qed
qed

lemma canvas_nodes_render [simp]: "canvas_nodes (render v) = canvas_nodes v"
  by (simp add: render_def canvas_nodes_def split: option.splits)

lemma visualize_keeps_view:
  "scale (snd (visualize metadata layout v)) = scale v \<and>
   translateX (snd (visualize metadata layout v)) = translateX v \<and>
   translateY (snd (visualize metadata layout v)) = translateY v \<and>
   searchTerm (snd (visualize metadata layout v)) = searchTerm v"
  by (simp add: visualize_def Let_def render_def split: sum.splits option.splits)

lemma visualize_fresh_nodes:
  "\<forall>n \<in> set (canvas_nodes (snd (visualize metadata layout v))). fresh_node metadata n"
proof (cases "renderByLayout (if truthy layout then the layout else currentLayout v) metadata")
  case (Inl e)
  then show ?thesis
    by (simp add: visualize_def Let_def canvas_nodes_def)
next
  case (Inr c)
  then show ?thesis
    using fresh_renderByLayout [OF Inr]
    by (simp add: visualize_def Let_def) (simp add: canvas_nodes_def)
qed

lemma visualize_selection_empty: "selected_set (snd (visualize metadata layout v)) = {}"
  using visualize_fresh_nodes [of metadata layout v]
  by (auto simp add: selected_set_def fresh_node_def)

lemma chain_connectors_count:
  "length (filter is_connector (concat (map (\<lambda>(index, layer).
        (if index > 0 then [c] else []) @ [LayerNode (f index layer)]) (enumerate n xs)))) =
   (if is_connector c then (if n = 0 then length xs - 1 else length xs) else 0)"
  by (induction xs arbitrary: n) auto

lemma vertical_counts:
  "length (layer_nodes (renderVerticalLayout layout metadata)) = length (layers metadata) \<and>
   length (filter is_connector (renderVerticalLayout layout metadata)) = length (layers metadata) - 1"
proof
  show "length (layer_nodes (renderVerticalLayout layout metadata)) = length (layers metadata)"
    by (simp add: layer_nodes_renderVerticalLayout)
  show "length (filter is_connector (renderVerticalLayout layout metadata)) = length (layers metadata) - 1"
    by (simp add: renderVerticalLayout_def chain_connectors_count)
qed

lemma horizontal_counts:
  "length (layer_nodes (renderHorizontalLayout layout metadata)) = length (layers metadata) \<and>
   length (filter is_connector (renderHorizontalLayout layout metadata)) = length (layers metadata) - 1"
proof
  show "length (layer_nodes (renderHorizontalLayout layout metadata)) = length (layers metadata)"
    by (simp add: layer_nodes_renderHorizontalLayout)
  show "length (filter is_connector (renderHorizontalLayout layout metadata)) = length (layers metadata) - 1"
    by (simp add: renderHorizontalLayout_def chain_connectors_count)
qed

lemma circular_children_general:
  assumes "n + length xs = N"
  shows "connection_lines (concat (map (\<lambda>(index, layer).
            LayerNode (g index layer) #
            (if int index < int N - 1 then [ConnectionLine (h index)] else [])) (enumerate n xs))) =
         map h [n..<N - 1] \<and>
         filter is_connector (concat (map (\<lambda>(index, layer).
            LayerNode (g index layer) #
            (if int index < int N - 1 then [ConnectionLine (h index)] else [])) (enumerate n xs))) =
         map (\<lambda>i. ConnectionLine (h i)) [n..<N - 1]"
  using assms
proof (induction xs arbitrary: n)
  case Nil
  then show ?case by simp
next
  case (Cons x xs)
  from Cons.prems have rest: "Suc n + length xs = N" by simp
  show ?case
  proof (cases "int n < int N - 1")
    case True
    then have "n < N - 1" by simp
    then have "[n..<N - 1] = n # [Suc n..<N - 1]"
      by (simp add: upt_conv_Cons)
    with True Cons.IH [OF rest] show ?thesis by simp
  next
    case False
    with Cons.prems have "[n..<N - 1] = []" "[Suc n..<N - 1] = []" by simp_all
    with False Cons.IH [OF rest] show ?thesis by simp
  qed
qed

lemma circular_children:
  "vc_children (renderCircularLayout layout metadata) =
     concat (map (\<lambda>(index, layer).
        LayerNode (circularNode layout metadata index layer) #
        (if int index < int (length (layers metadata)) - 1
         then [ConnectionLine (circularLine metadata index)] else []))
       (enumerate 0 (layers metadata)))"
  by (simp add: renderCircularLayout_def circularLine_def circularNode_def Let_def cong: if_cong)

lemma circular_lines:
  "connection_lines (vc_children (renderCircularLayout layout metadata)) =
     map (circularLine metadata) [0..<length (layers metadata) - 1] \<and>
   filter is_connector (vc_children (renderCircularLayout layout metadata)) =
     map (\<lambda>i. ConnectionLine (circularLine metadata i)) [0..<length (layers metadata) - 1]"
  unfolding circular_children
  by (rule circular_children_general) simp

lemma circular_counts:
  "length (layer_nodes (vc_children (renderCircularLayout layout metadata))) = length (layers metadata) \<and>
   length (filter is_connector (vc_children (renderCircularLayout layout metadata))) =
     length (layers metadata) - 1"
  by (simp add: layer_nodes_renderCircularLayout circular_lines)

lemma length_concat_update:
  "distinct (map fst al) \<Longrightarrow> map_of al k = Some g \<Longrightarrow>
   length (concat (map snd (AList.update k v al))) + length g =
   length (concat (map snd al)) + length v"
proof (induction al)
  case Nil
  then show ?case by simp
next
  case (Cons p al)
  obtain k' g' where p: "p = (k', g')" by (cases p)
  show ?case
  proof (cases "k' = k")
    case True
    with Cons.prems p show ?thesis by simp
  next
    case False
    with Cons p show ?thesis by simp
  qed
qed

lemma groupByType_length:
  "groupByType ls acc = Inr obj \<Longrightarrow> distinct (map fst acc) \<Longrightarrow>
   length (concat (map snd obj)) = length (concat (map snd acc)) + length ls"
proof (induction ls arbitrary: acc)
  case Nil
  then show ?case by simp
next
  case (Cons layer rest)
  define created where "created =
     (if map_of acc (type layer) = None \<and> type layer \<notin> set inherited_names
      then acc @ [(type layer, [])] else acc)"
  have cr: "length (concat (map snd created)) = length (concat (map snd acc))"
    by (simp add: created_def)
  have dc: "distinct (map fst created)"
    using Cons.prems(2) by (auto simp add: created_def map_of_eq_None_iff)
  from Cons.prems(1) obtain members where
    m: "map_of created (type layer) = Some members" and
    g: "groupByType rest (AList.update (type layer) (members @ [layer]) created) = Inr obj"
    by (auto simp add: created_def [symmetric] Let_def split: option.splits)
  have du: "distinct (map fst (AList.update (type layer) (members @ [layer]) created))"
    using dc by (simp add: distinct_update)
  from Cons.IH [OF g du] length_concat_update [OF dc m, of "members @ [layer]"] cr
  show ?case by simp
qed

lemma groupByType_succeeds:
  "\<forall>l \<in> set ls. type l \<notin> set inherited_names \<Longrightarrow> \<exists>obj. groupByType ls acc = Inr obj"
proof (induction ls arbitrary: acc)
  case Nil
  then show ?case by simp
next
  case (Cons layer rest)
  define created where "created =
     (if map_of acc (type layer) = None \<and> type layer \<notin> set inherited_names
      then acc @ [(type layer, [])] else acc)"
  from Cons.prems have "type layer \<notin> set inherited_names" by simp
  then have "map_of created (type layer) \<noteq> None"
    by (auto simp add: created_def map_of_eq_None_iff)
  then obtain members where m: "map_of created (type layer) = Some members" by blast
  from Cons.prems have "\<forall>l \<in> set rest. type l \<notin> set inherited_names" by simp
  from Cons.IH [OF this, of "AList.update (type layer) (members @ [layer]) created"] m
  show ?case
    by (simp add: created_def [symmetric])
qed

lemma groupByType_throws:
  "\<exists>l \<in> set ls. type l \<in> set inherited_names \<Longrightarrow>
   \<forall>k \<in> fst ` set acc. k \<notin> set inherited_names \<Longrightarrow>
   groupByType ls acc = Inl TypeError"
proof (induction ls arbitrary: acc)
  case Nil
  then show ?case by simp
next
  case (Cons layer rest)
  define created where "created =
     (if map_of acc (type layer) = None \<and> type layer \<notin> set inherited_names
      then acc @ [(type layer, [])] else acc)"
  show ?case
  proof (cases "type layer \<in> set inherited_names")
    case True
    with Cons.prems(2) have "map_of acc (type layer) = None"
      by (auto simp add: map_of_eq_None_iff)
    with True show ?thesis by simp
  next
    case False
    then have "map_of created (type layer) \<noteq> None"
      by (auto simp add: created_def map_of_eq_None_iff)
    then obtain members where m: "map_of created (type layer) = Some members" by blast
    have "set (map fst (AList.update (type layer) (members @ [layer]) created)) \<subseteq>
        insert (type layer) (set (map fst acc))"
      by (auto simp add: update_keys created_def)
    then have "fst ` set (AList.update (type layer) (members @ [layer]) created) \<subseteq>
        insert (type layer) (fst ` set acc)"
      by simp
    then have keys: "\<forall>k \<in> fst ` set (AList.update (type layer) (members @ [layer]) created).
        k \<notin> set inherited_names"
    proof (intro ballI)
      fix k
      assume sub: "fst ` set (AList.update (type layer) (members @ [layer]) created) \<subseteq>
        insert (type layer) (fst ` set acc)"
        and "k \<in> fst ` set (AList.update (type layer) (members @ [layer]) created)"
      then have "k = type layer \<or> k \<in> fst ` set acc"
        by (meson insertE subsetD)
      then show "k \<notin> set inherited_names"
        using Cons.prems(2) False by (elim disjE) auto
    qed
    from Cons.prems(1) False have "\<exists>l \<in> set rest. type l \<in> set inherited_names" by auto
    from Cons.IH [OF this keys] m show ?thesis
      by (simp add: created_def [symmetric])
  qed
qed

lemma mset_Object_entries: "mset (Object_entries obj) = mset obj"
  by (simp add: Object_entries_def)

lemma length_layer_nodes_groups:
  "length (layer_nodes (map (\<lambda>(ty, members). LayerGroup ty (length members) (map (f ty) (enumerate 0 members))) gs)) =
   sum_list (map (\<lambda>g. length (snd g)) gs)"
  by (induction gs) (auto simp add: split_def)

lemma renderTreeLayout_count:
  assumes "renderTreeLayout layout metadata = Inr es"
  shows "length (layer_nodes es) = length (layers metadata) \<and> filter is_connector es = []"
proof -
  from assms obtain obj where obj: "groupByType (layers metadata) [] = Inr obj"
    and es: "es = map (\<lambda>(ty, members).
                 LayerGroup ty (length members)
                   (map (\<lambda>(index, layer).
                      (createLayerNode layout layer index metadata)\<lparr>nd_maxWidth := Some CssNone\<rparr>)
                     (enumerate 0 members)))
               (Object_entries obj)"
    by (auto simp add: renderTreeLayout_def split: sum.splits)
  have "length (layer_nodes es) = sum_list (map (\<lambda>g. length (snd g)) (Object_entries obj))"
    unfolding es by (rule length_layer_nodes_groups)
  also have "\<dots> = sum_mset (image_mset (\<lambda>g. length (snd g)) (mset (Object_entries obj)))"
    by (simp add: sum_mset_sum_list [symmetric])
  also have "\<dots> = sum_list (map (\<lambda>g. length (snd g)) obj)"
    by (simp add: mset_Object_entries sum_mset_sum_list [symmetric])
  also have "\<dots> = length (concat (map snd obj))"
    by (simp add: length_concat comp_def)
  also have "\<dots> = length (layers metadata)"
    using groupByType_length [OF obj] by simp
  finally have "length (layer_nodes es) = length (layers metadata)" .
  moreover have "filter is_connector es = []"
    by (auto simp add: es filter_empty_conv)
  ultimately show ?thesis by simp
qed

lemma renderTreeLayout_result:
  "renderTreeLayout layout metadata =
     (if \<exists>l \<in> set (layers metadata). type l \<in> set inherited_names then Inl TypeError
      else Inr (projr (renderTreeLayout layout metadata)))"
proof (cases "\<exists>l \<in> set (layers metadata). type l \<in> set inherited_names")
  case True
  then have "groupByType (layers metadata) [] = Inl TypeError"
    by (intro groupByType_throws) simp_all
  with True show ?thesis by (simp add: renderTreeLayout_def)
next
  case False
  then obtain obj where "groupByType (layers metadata) [] = Inr obj"
    using groupByType_succeeds [of "layers metadata" "[]"] by blast
  with False show ?thesis by (simp add: renderTreeLayout_def)
qed

lemma visualize_circular:
  "fst (visualize metadata (Some ''circular'') v) = None \<and>
   currentLayout (snd (visualize metadata (Some ''circular'') v)) = ''circular'' \<and>
   canvasHeight (snd (visualize metadata (Some ''circular'') v)) =
     Some (circularSize (length (layers metadata))) \<and>
   map_option vc_size (container (snd (visualize metadata (Some ''circular'') v))) =
     Some (Some (circularSize (length (layers metadata)))) \<and>
   canvas_children (snd (visualize metadata (Some ''circular'') v)) =
     vc_children (renderCircularLayout ''circular'' metadata)"
  by (simp add: visualize_def truthy_def renderByLayout_def autoSizeCanvas_def render_def
        canvas_children_def Let_def)
     (simp add: renderCircularLayout_def Let_def)

lemma canvas_nodes_children: "canvas_nodes v = layer_nodes (canvas_children v)"
  by (simp add: canvas_nodes_def canvas_children_def split: option.splits)

lemma circular_node_nth:
  assumes "i < length (layers metadata)"
  shows "canvas_nodes (snd (visualize metadata (Some ''circular'') v)) ! i =
         circularNode ''circular'' metadata i (layers metadata ! i)"
  using assms
  by (simp add: canvas_nodes_children visualize_circular layer_nodes_renderCircularLayout
        nth_enumerate_eq)

lemma visualize_vertical:
  "fst (visualize metadata (Some ''vertical'') v) = None \<and>
   canvas_children (snd (visualize metadata (Some ''vertical'') v)) =
     renderVerticalLayout ''vertical'' metadata"
  by (simp add: visualize_def truthy_def renderByLayout_def render_def canvas_children_def Let_def)

lemma visualize_horizontal:
  "fst (visualize metadata (Some ''horizontal'') v) = None \<and>
   canvas_children (snd (visualize metadata (Some ''horizontal'') v)) =
     renderHorizontalLayout ''horizontal'' metadata"
  by (simp add: visualize_def truthy_def renderByLayout_def render_def canvas_children_def Let_def)

lemma visualize_tree:
  "visualize metadata (Some ''tree'') v =
     (case renderTreeLayout ''tree'' metadata of
        Inl e \<Rightarrow>
          (Some e, v\<lparr>currentMetadata := Some metadata, currentLayout := ''tree'', container := None,
                      canvasHeight := Some (min (400 + int (length (layers metadata)) * 10) 1000)\<rparr>)
      | Inr children \<Rightarrow>
          (None, render (v\<lparr>currentMetadata := Some metadata, currentLayout := ''tree'',
                            canvasHeight := Some (min (400 + int (length (layers metadata)) * 10) 1000),
                            container := Some \<lparr>vc_children = children, vc_size = None,
                                                vc_transform = None\<rparr>\<rparr>)))"
  by (simp add: visualize_def truthy_def renderByLayout_def autoSizeCanvas_def Let_def
        split: sum.splits)

lemma canvas_children_render [simp]: "canvas_children (render v) = canvas_children v"
  by (simp add: render_def canvas_children_def split: option.splits)

section \<open>The concrete model\<close>

lemmas eval_defs =
  visualize_def renderByLayout_def renderVerticalLayout_def renderHorizontalLayout_def
  renderTreeLayout_def createLayerNode_def relativeSize_def maxParams_def truthy_def
  autoSizeCanvas_def render_def new_Visualizer_def mkLayer_def canvas_nodes_def
  enumerate_eq_zip Object_entries_def is_array_index_def is_digit_def inherited_names_def
  Let_def


lemma demo_view_length: "length (canvas_nodes demo_view) = 3"
  by (simp add: demo_view_def demo_model_def eval_defs)


lemmas click_defs = click_def toggle_selected_def handleLayerSelection_def List.map_filter_def

lemma nths_example: "nths [a, b, c] {2, 0} = [a, c]"
  by (simp add: nths_def upt_rec)

lemma demo_view_vertical: "demo_view = snd (visualize demo_model (Some ''vertical'') new_Visualizer)"
  by (simp add: demo_view_def visualize_def truthy_def new_Visualizer_def)

lemma ring_view_length: "length (canvas_nodes ring_view) = 4"
  by (simp add: ring_view_def ring_model_def eval_defs)

lemma ring_model_facts:
  "layers ring_model \<noteq> []" "length (layers ring_model) = 4"
  "circularRadius 4 = 200" "circularSize 4 = 650"
  by (simp_all add: ring_model_def circularRadius_def circularSize_def)

section \<open>Selection by click\<close>

lemma canvas_nodes_toggle_selected:
  "k < length (canvas_nodes v) \<Longrightarrow>
   canvas_nodes (toggle_selected k v) =
     (canvas_nodes v)[k := (canvas_nodes v ! k)\<lparr>nd_selected := \<not> nd_selected (canvas_nodes v ! k)\<rparr>]"
  by (cases "container v")
     (simp_all add: canvas_nodes_def toggle_selected_def layer_nodes_update_node)

lemma toggle_selected_twice: "toggle_selected k (toggle_selected k v) = v"
proof (cases "container v")
  case None
  then show ?thesis by (simp add: toggle_selected_def)
next
  case (Some c)
  have "update_node k (\<lambda>n. n\<lparr>nd_selected := \<not> nd_selected n\<rparr>)
          (update_node k (\<lambda>n. n\<lparr>nd_selected := \<not> nd_selected n\<rparr>) (vc_children c)) = vc_children c"
    by (simp add: update_node_compose update_node_ident)
  with Some show ?thesis by (simp add: toggle_selected_def)
qed

lemma length_canvas_nodes_toggle_selected:
  "length (canvas_nodes (toggle_selected k v)) = length (canvas_nodes v)"
proof (cases "k < length (canvas_nodes v)")
  case True
  then show ?thesis by (simp add: canvas_nodes_toggle_selected)
next
  case False
  have "\<not> k < length (layer_nodes es) \<Longrightarrow> update_node k f es = es" for f es
    by (induction k f es rule: update_node.induct) simp_all
  with False show ?thesis
    by (cases "container v") (simp_all add: canvas_nodes_def toggle_selected_def)
qed

lemma selected_set_toggle_selected:
  assumes "k < length (canvas_nodes v)"
  shows "selected_set (toggle_selected k v) =
           (if k \<in> selected_set v then selected_set v - {k} else insert k (selected_set v))"
  using assms
  by (auto simp add: selected_set_def canvas_nodes_toggle_selected nth_list_update)

text \<open>
  C6. A click whose count is not 2 on the node at position \<open>k\<close> toggles the membership
  of \<open>k\<close> in the selection and of no other node, and two such clicks restore the state
  (the toggle law). A click whose count is 2, the second click of a double click,
  dispatches the detail event for the layer of that node only and leaves the state, and
  so the selection, as it is.
\<close>

theorem click_toggle_law:
  "k < length (canvas_nodes v) \<and> d \<noteq> 2 \<and> d' \<noteq> 2 \<longrightarrow>
     selected_set (fst (click k d v)) =
       (if k \<in> selected_set v then selected_set v - {k} else insert k (selected_set v)) \<and>
     fst (click k d' (fst (click k d v))) = v \<and>
     click k 2 v = (v, [LayerClick (nd_layer (canvas_nodes v ! k))])"
proof (intro impI conjI)
  assume a: "k < length (canvas_nodes v) \<and> d \<noteq> 2 \<and> d' \<noteq> 2"
  then have st: "fst (click k d v) = toggle_selected k v"
    by (simp add: click_def Let_def)
  show "selected_set (fst (click k d v)) =
       (if k \<in> selected_set v then selected_set v - {k} else insert k (selected_set v))"
    using a st by (simp add: selected_set_toggle_selected)
  have "fst (click k d' (toggle_selected k v)) = toggle_selected k (toggle_selected k v)"
    using a by (simp add: click_def Let_def length_canvas_nodes_toggle_selected)
  then show "fst (click k d' (fst (click k d v))) = v"
    by (simp add: st toggle_selected_twice)
  show "click k 2 v = (v, [LayerClick (nd_layer (canvas_nodes v ! k))])"
    using a by (simp add: click_def)
qed

theorem click_toggle_law_witness:
  "selected_set (fst (click 1 1 demo_view)) = {1} \<and>
   fst (click 1 3 (fst (click 1 1 demo_view))) = demo_view \<and>
   click 1 2 demo_view = (demo_view, [LayerClick (mkLayer ''bn1'' ''BatchNorm'' 64)])"
proof -
  have none: "selected_set demo_view = {}"
    by (simp add: demo_view_def visualize_selection_empty)
  have layer: "nd_layer (canvas_nodes demo_view ! 1) = mkLayer ''bn1'' ''BatchNorm'' 64"
    by (simp add: demo_view_def demo_model_def eval_defs)
  show ?thesis
    using click_toggle_law [of 1 demo_view 1 3] none layer demo_view_length
    by simp
qed

section \<open>Search\<close>

lemma canvas_nodes_search:
  "canvas_nodes (search unicode t v) =
     map (search_node unicode t (toLowerCase unicode t)) (canvas_nodes v)"
  by (cases "container v") (simp_all add: canvas_nodes_def search_def layer_nodes_map_nodes)










lemma search_node_equal_lower_forms:
  assumes "t \<noteq> []" "toLowerCase unicode t = toLowerCase unicode (nd_name n)"
  shows "nd_highlighted (search_node unicode t (toLowerCase unicode t) n) \<and>
         \<not> nd_dimmed (search_node unicode t (toLowerCase unicode t) n)"
  using assms by (simp add: search_node_def Let_def js_includes_sublist)





text \<open>
  Outside ASCII the classification follows the conversion: when it maps the capital E with
  acute accent (code 0xC9) to the small one (code 0xE9) and keeps the small one, the term of
  the capital highlights a node named with the small one.
\<close>

lemma search_node_accented_example:
  assumes "unicode [CHR 0xC9] = [CHR 0xE9]" "unicode [CHR 0xE9] = [CHR 0xE9]"
    "nd_name n = [CHR 0xE9]"
  shows "nd_highlighted (search_node unicode [CHR 0xC9] (toLowerCase unicode [CHR 0xC9]) n) \<and>
         \<not> nd_dimmed (search_node unicode [CHR 0xC9] (toLowerCase unicode [CHR 0xC9]) n)"
  using assms
  by (intro search_node_equal_lower_forms) (simp_all add: toLowerCase_def is_ascii_def)

section \<open>The selection event and the comparison\<close>

lemma update_node_out_of_range:
  "\<not> k < length (layer_nodes es) \<Longrightarrow> update_node k f es = es"
  by (induction k f es rule: update_node.induct) simp_all

lemma toggle_selected_out_of_range:
  "\<not> k < length (canvas_nodes v) \<Longrightarrow> toggle_selected k v = v"
  by (cases "container v")
     (simp_all add: toggle_selected_def canvas_nodes_def update_node_out_of_range)

lemma rendered_visualize: "rendered metadata (snd (visualize metadata layout v))"
  using visualize_fresh_nodes [of metadata layout v]
  by (simp add: rendered_def fresh_node_def)

lemma rendered_toggle_selected:
  assumes "rendered metadata v"
  shows "rendered metadata (toggle_selected k v)"
proof (cases "k < length (canvas_nodes v)")
  case True
  have mem: "canvas_nodes v ! k \<in> set (canvas_nodes v)"
    using True by simp
  show ?thesis
    unfolding rendered_def
  proof (intro ballI)
    fix n
    assume "n \<in> set (canvas_nodes (toggle_selected k v))"
    then have "n \<in> insert ((canvas_nodes v ! k)\<lparr>nd_selected := \<not> nd_selected (canvas_nodes v ! k)\<rparr>)
                  (set (canvas_nodes v))"
      using True set_update_subset_insert [of "canvas_nodes v" k]
      by (auto simp add: canvas_nodes_toggle_selected)
    then consider (old) "n \<in> set (canvas_nodes v)"
      | (new) "n = (canvas_nodes v ! k)\<lparr>nd_selected := \<not> nd_selected (canvas_nodes v ! k)\<rparr>"
      by blast
    then show "nd_metadata n = metadata \<and> nd_name n = name (nd_layer n) \<and>
        nd_layer n \<in> set (layers metadata)"
    proof cases
      case old
      with assms show ?thesis by (simp add: rendered_def)
    next
      case new
      from assms mem have "nd_metadata (canvas_nodes v ! k) = metadata \<and>
          nd_name (canvas_nodes v ! k) = name (nd_layer (canvas_nodes v ! k)) \<and>
          nd_layer (canvas_nodes v ! k) \<in> set (layers metadata)"
        by (simp add: rendered_def)
      with new show ?thesis by simp
    qed
  qed
next
  case False
  with assms show ?thesis by (simp add: toggle_selected_out_of_range)
qed

lemma rendered_search:
  assumes "rendered metadata v"
  shows "rendered metadata (search unicode t v)"
  using assms
  by (auto simp add: rendered_def canvas_nodes_search search_node_def Let_def)

lemma nd_layer_toggle_selected:
  "map nd_layer (canvas_nodes (toggle_selected k v)) = map nd_layer (canvas_nodes v)"
proof (cases "k < length (canvas_nodes v)")
  case True
  then show ?thesis
    by (simp add: canvas_nodes_toggle_selected map_update list_update_same_conv)
next
  case False
  then show ?thesis by (simp add: toggle_selected_out_of_range)
qed

lemma nd_layer_search:
  "map nd_layer (canvas_nodes (search unicode t v)) = map nd_layer (canvas_nodes v)"
  by (simp add: canvas_nodes_search search_node_def Let_def)

lemma map_layer_enumerate:
  "(\<And>i l. nd_layer (f i l) = l) \<Longrightarrow> map nd_layer (map (\<lambda>(i, l). f i l) (enumerate n xs)) = xs"
  by (induction xs arbitrary: n) simp_all

lemma canvas_nodes_visualize_chain:
  assumes "layout \<in> {''vertical'', ''horizontal'', ''circular''}"
  shows "map nd_layer (canvas_nodes (snd (visualize metadata (Some layout) v))) = layers metadata"
proof -
  have cl: "nd_layer (createLayerNode lay l i metadata) = l" for lay l i
    by (simp add: createLayerNode_def Let_def)
  have cn: "nd_layer (circularNode lay metadata i l) = l" for lay l i
    by (simp add: circularNode_def createLayerNode_def Let_def)
  from assms consider "layout = ''vertical''" | "layout = ''horizontal''" | "layout = ''circular''"
    by blast
  then show ?thesis
  proof cases
    case 1
    then have "canvas_nodes (snd (visualize metadata (Some layout) v)) =
        layer_nodes (renderVerticalLayout ''vertical'' metadata)"
      by (simp add: visualize_def truthy_def renderByLayout_def Let_def) (simp add: canvas_nodes_def)
    then show ?thesis
      by (simp add: layer_nodes_renderVerticalLayout map_layer_enumerate [OF cl] del: map_map)
  next
    case 2
    then have "canvas_nodes (snd (visualize metadata (Some layout) v)) =
        layer_nodes (renderHorizontalLayout ''horizontal'' metadata)"
      by (simp add: visualize_def truthy_def renderByLayout_def Let_def) (simp add: canvas_nodes_def)
    then show ?thesis
      by (simp add: layer_nodes_renderHorizontalLayout map_layer_enumerate [OF cl] del: map_map)
  next
    case 3
    then show ?thesis
      by (simp add: canvas_nodes_children visualize_circular layer_nodes_renderCircularLayout
            map_layer_enumerate [OF cn] del: map_map)
  qed
qed

lemma click_event:
  assumes "k < length (canvas_nodes v)" "d \<noteq> 2"
  shows "click k d v =
     (toggle_selected k v,
      [LayerSelection (length (filter nd_selected (canvas_nodes (toggle_selected k v))))
         (List.map_filter (resolve (nd_metadata (canvas_nodes v ! k)))
            (filter nd_selected (canvas_nodes (toggle_selected k v))))])"
  using assms by (simp add: click_def Let_def resolve_def [abs_def])

lemma resolve_first:
  assumes "nd_name n = name (nd_layer n)" "nd_layer n \<in> set (layers metadata)"
  shows "\<exists>i < length (layers metadata).
           resolve metadata n = Some (layers metadata ! i) \<and>
           name (layers metadata ! i) = nd_name n \<and>
           (\<forall>j < i. name (layers metadata ! j) \<noteq> nd_name n)"
proof -
  show ?thesis
  proof (cases "resolve metadata n")
    case None
    then have "\<not> (\<exists>l. l \<in> set (layers metadata) \<and> name l = nd_name n)"
      by (simp add: resolve_def find_None_iff)
    with assms show ?thesis by auto
  next
    case (Some l)
    then show ?thesis
      by (simp add: resolve_def find_Some_iff) blast
  qed
qed

lemma map_filter_total:
  "(\<And>x. x \<in> set xs \<Longrightarrow> f x \<noteq> None) \<Longrightarrow> List.map_filter f xs = map (\<lambda>x. the (f x)) xs"
  by (induction xs) (auto simp add: List.map_filter_def)

lemma resolve_distinct:
  assumes "distinct (map name (layers metadata))" "nd_name n = name (nd_layer n)"
    "nd_layer n \<in> set (layers metadata)"
  shows "resolve metadata n = Some (nd_layer n)"
proof -
  from resolve_first [OF assms(2,3)] obtain i where i: "i < length (layers metadata)"
    "resolve metadata n = Some (layers metadata ! i)" "name (layers metadata ! i) = nd_name n"
    by blast
  from assms(3) obtain j where j: "j < length (layers metadata)" "layers metadata ! j = nd_layer n"
    by (auto simp add: in_set_conv_nth)
  with i assms(2) have "map name (layers metadata) ! i = map name (layers metadata) ! j"
    by simp
  with assms(1) i(1) j(1) have "i = j"
    using nth_eq_iff_index_eq [of "map name (layers metadata)" i j] by simp
  with i j show ?thesis by simp
qed

lemma length_selected_card:
  "length (filter nd_selected (canvas_nodes v)) = card (selected_set v)"
  by (simp add: selected_set_def length_filter_conv_card)

lemma chain_rendered_toggle_selected:
  "chain_rendered metadata v \<Longrightarrow> chain_rendered metadata (toggle_selected k v)"
  by (simp add: chain_rendered_def rendered_toggle_selected nd_layer_toggle_selected)

lemma chain_rendered_search:
  "chain_rendered metadata v \<Longrightarrow> chain_rendered metadata (search unicode t v)"
  by (simp add: chain_rendered_def rendered_search nd_layer_search)

lemma chain_rendered_visualize:
  "layout \<in> {''vertical'', ''horizontal'', ''circular''} \<Longrightarrow>
   chain_rendered metadata (snd (visualize metadata (Some layout) v))"
  unfolding chain_rendered_def
  using rendered_visualize canvas_nodes_visualize_chain by blast

lemma records_rendered:
  assumes "rendered metadata v"
  shows "List.map_filter (resolve metadata) (filter nd_selected (canvas_nodes v)) =
         map (\<lambda>n. the (resolve metadata n)) (filter nd_selected (canvas_nodes v))"
proof (rule map_filter_total)
  fix n
  assume "n \<in> set (filter nd_selected (canvas_nodes v))"
  then have "n \<in> set (canvas_nodes v)" by simp
  with assms have "nd_name n = name (nd_layer n)" "nd_layer n \<in> set (layers metadata)"
    by (simp_all add: rendered_def)
  from resolve_first [OF this] show "resolve metadata n \<noteq> None" by auto
qed

lemma records_chain:
  assumes "chain_rendered metadata v" "distinct (map name (layers metadata))"
  shows "List.map_filter (resolve metadata) (filter nd_selected (canvas_nodes v)) =
         nths (layers metadata) (selected_set v)"
proof -
  from assms(1) have r: "rendered metadata v" and m: "map nd_layer (canvas_nodes v) = layers metadata"
    by (simp_all add: chain_rendered_def)
  have "map (\<lambda>n. the (resolve metadata n)) (filter nd_selected (canvas_nodes v)) =
        map nd_layer (filter nd_selected (canvas_nodes v))"
  proof (rule map_cong [OF refl])
    fix n
    assume "n \<in> set (filter nd_selected (canvas_nodes v))"
    then have "n \<in> set (canvas_nodes v)" by simp
    with r have "nd_name n = name (nd_layer n)" "nd_layer n \<in> set (layers metadata)"
      by (simp_all add: rendered_def)
    from resolve_distinct [OF assms(2) this] show "the (resolve metadata n) = nd_layer n"
      by simp
  qed
  also have "\<dots> = map nd_layer (nths (canvas_nodes v) (selected_set v))"
    by (simp add: filter_eq_nths selected_set_def)
  also have "\<dots> = nths (layers metadata) (selected_set v)"
    by (simp add: nths_map [symmetric] m)
  finally show ?thesis
    by (simp add: records_rendered [OF r])
qed

lemma host_listener_policy:
  "map host_listener [LayerSelection c records] =
     [if c \<le> 1 then [HideModal ''comparison-modal'']
      else if c \<le> 3 then [ShowModal ''comparison-modal'', RenderComparison records]
      else [ShowToast ''warning'' ''Select up to 3 layers to compare'']]"
  by (simp add: handleLayerSelection_def)

lemma length_canvas_nodes_click:
  "length (canvas_nodes (fst (click k d v))) = length (canvas_nodes v)"
  by (simp add: click_def Let_def length_canvas_nodes_toggle_selected)

lemma resolve_first_index:
  assumes "i < length (layers metadata)" "name (layers metadata ! i) = nd_name n"
    "\<forall>m < i. name (layers metadata ! m) \<noteq> nd_name n"
  shows "resolve metadata n = Some (layers metadata ! i)"
  using assms by (auto simp add: resolve_def find_Some_iff)

lemma all_equal_two:
  assumes "length xs = 2" "\<forall>x \<in> set xs. x = c"
  shows "xs = [c, c]"
proof -
  from assms(1) obtain a b where "xs = [a, b]"
    by (auto simp add: length_Suc_conv numeral_2_eq_2)
  with assms(2) show ?thesis by simp
qed

lemma filter_single:
  assumes "k < length xs" "P x" "\<forall>i < length xs. i \<noteq> k \<longrightarrow> \<not> P (xs ! i)"
  shows "filter P (xs[k := x]) = [x]"
proof -
  have "filter P (take k xs) = []"
    using assms(1,3) by (auto simp add: filter_empty_conv in_set_conv_nth)
  moreover have "filter P (drop (Suc k) xs) = []"
    using assms(1,3) by (auto simp add: filter_empty_conv in_set_conv_nth)
  ultimately show ?thesis
    using assms(1,2) by (simp add: upd_conv_take_nth_drop)
qed

text \<open>
  C7, as amended. A click that toggles the node at position \<open>k\<close> dispatches one selection
  event: its count is the number of selected nodes, and its layer list resolves every
  selected node, in document order, to the first layer of the model with the name the node
  shows. The host hides the comparison for a count of 0 or 1, renders it from that list for
  2 or 3, and shows a warning for more; the selection is the toggled one whatever the
  count, nothing truncates it. In a chain layout (vertical, horizontal, circular) of a
  model whose layer names are distinct the list is exactly the selected layers in model
  order; a chain layout establishes that, and clicks and searches keep it.
\<close>

theorem selection_event_policy:
  assumes "k < length (canvas_nodes v)" "d \<noteq> 2"
  shows "let v' = fst (click k d v);
             sel = filter nd_selected (canvas_nodes v');
             records = List.map_filter (resolve (nd_metadata (canvas_nodes v ! k))) sel
         in selected_set v' =
              (if k \<in> selected_set v then selected_set v - {k} else insert k (selected_set v)) \<and>
            length sel = card (selected_set v') \<and>
            snd (click k d v) = [LayerSelection (length sel) records] \<and>
            map host_listener (snd (click k d v)) =
              [if length sel \<le> 1 then [HideModal ''comparison-modal'']
               else if length sel \<le> 3
                 then [ShowModal ''comparison-modal'', RenderComparison records]
               else [ShowToast ''warning'' ''Select up to 3 layers to compare'']] \<and>
            (rendered metadata v \<longrightarrow>
               rendered metadata v' \<and> records = map (\<lambda>n. the (resolve metadata n)) sel) \<and>
            (chain_rendered metadata v \<and> distinct (map name (layers metadata)) \<longrightarrow>
               chain_rendered metadata v' \<and> records = nths (layers metadata) (selected_set v')) \<and>
            (layout \<in> {''vertical'', ''horizontal'', ''circular''} \<longrightarrow>
               chain_rendered metadata (snd (visualize metadata (Some layout) v0))) \<and>
            (chain_rendered metadata v \<longrightarrow> chain_rendered metadata (search unicode t v))"
proof -
  define v' where "v' = fst (click k d v)"
  define sel where "sel = filter nd_selected (canvas_nodes v')"
  define records where "records = List.map_filter (resolve (nd_metadata (canvas_nodes v ! k))) sel"
  have v': "v' = toggle_selected k v"
    using assms by (simp add: v'_def click_event)
  have s1: "selected_set v' =
              (if k \<in> selected_set v then selected_set v - {k} else insert k (selected_set v))"
    using assms(1) by (simp add: v' selected_set_toggle_selected)
  have s2: "length sel = card (selected_set v')"
    by (simp add: sel_def length_selected_card)
  have s3: "snd (click k d v) = [LayerSelection (length sel) records]"
    using assms by (simp add: click_event records_def sel_def v')
  have s4: "map host_listener (snd (click k d v)) =
              [if length sel \<le> 1 then [HideModal ''comparison-modal'']
               else if length sel \<le> 3
                 then [ShowModal ''comparison-modal'', RenderComparison records]
               else [ShowToast ''warning'' ''Select up to 3 layers to compare'']]"
    unfolding s3 by (rule host_listener_policy)
  have md: "nd_metadata (canvas_nodes v ! k) = metadata" if "rendered metadata v"
    using that assms(1) by (simp add: rendered_def)
  have s5: "rendered metadata v' \<and> records = map (\<lambda>n. the (resolve metadata n)) sel"
    if r: "rendered metadata v"
    using rendered_toggle_selected [OF r, of k] records_rendered [of metadata v'] md [OF r]
    by (simp add: records_def sel_def v')
  have s6: "chain_rendered metadata v' \<and> records = nths (layers metadata) (selected_set v')"
    if c: "chain_rendered metadata v \<and> distinct (map name (layers metadata))"
  proof -
    from c have r: "rendered metadata v" by (simp add: chain_rendered_def)
    from c have c': "chain_rendered metadata v'"
      by (simp add: v' chain_rendered_toggle_selected)
    with c records_chain [of metadata v'] md [OF r] show ?thesis
      by (simp add: records_def sel_def)
  qed
  have s7: "chain_rendered metadata (snd (visualize metadata (Some layout) v0))"
    if "layout \<in> {''vertical'', ''horizontal'', ''circular''}"
    using that by (rule chain_rendered_visualize)
  have s8: "chain_rendered metadata (search unicode t v)" if "chain_rendered metadata v"
    using that by (rule chain_rendered_search)
  show ?thesis
    unfolding Let_def
    using s1 s2 s3 s4 s5 s6 s7 s8
    unfolding v'_def sel_def records_def
    by blast
qed

theorem selection_event_policy_witness:
  "map host_listener (snd (click 0 1 demo_view)) = [[HideModal ''comparison-modal'']] \<and>
   map host_listener (snd (click 2 1 (fst (click 0 1 demo_view)))) =
     [[ShowModal ''comparison-modal'',
       RenderComparison [mkLayer ''conv1'' ''Conv2D'' 320, mkLayer ''fc'' ''Dense'' 1000]]] \<and>
   map host_listener
     (snd (click 3 1 (fst (click 2 1 (fst (click 1 1 (fst (click 0 1 ring_view)))))))) =
     [[ShowToast ''warning'' ''Select up to 3 layers to compare'']] \<and>
   selected_set (fst (click 3 1 (fst (click 2 1 (fst (click 1 1 (fst (click 0 1 ring_view)))))))) =
     {0, 1, 2, 3}"
proof -
  have d: "(1::nat) \<noteq> 2" by simp
  have dn: "distinct (map name (layers demo_model))"
    by (simp add: demo_model_def mkLayer_def)
  have lay: "''vertical'' \<in> {''vertical'', ''horizontal'', ''circular''}" by simp
  define v1 where "v1 = fst (click 0 1 demo_view)"
  have k0: "0 < length (canvas_nodes demo_view)" by (simp add: demo_view_length)
  note t0 = selection_event_policy [OF k0 d, of demo_model "''vertical''" new_Visualizer id "[]",
      unfolded Let_def, folded v1_def demo_view_vertical]
  note sel0 = t0 [THEN conjunct1]
    and len0 = t0 [THEN conjunct2, THEN conjunct1]
    and host0 = t0 [THEN conjunct2, THEN conjunct2, THEN conjunct2, THEN conjunct1]
    and chain0 = t0 [THEN conjunct2, THEN conjunct2, THEN conjunct2, THEN conjunct2, THEN conjunct2, THEN conjunct1]
    and vis0 = t0 [THEN conjunct2, THEN conjunct2, THEN conjunct2, THEN conjunct2, THEN conjunct2, THEN conjunct2, THEN conjunct1]
  from vis0 lay have c0: "chain_rendered demo_model demo_view" by blast
  have e0: "selected_set demo_view = {}"
    by (simp add: demo_view_def visualize_selection_empty)
  from sel0 e0 have s1: "selected_set v1 = {0}" by simp
  from len0 s1 have l1: "length (filter nd_selected (canvas_nodes v1)) = 1" by simp
  have h1: "map host_listener (snd (click 0 1 demo_view)) = [[HideModal ''comparison-modal'']]"
    unfolding host0 by (simp add: l1)
  from chain0 c0 dn have c1: "chain_rendered demo_model v1" by blast
  have k2: "2 < length (canvas_nodes v1)"
    by (simp add: v1_def length_canvas_nodes_click demo_view_length)
  define v2 where "v2 = fst (click 2 1 v1)"
  note t1 = selection_event_policy [OF k2 d, of demo_model "''vertical''" new_Visualizer id "[]",
      unfolded Let_def, folded v2_def]
  note sel1 = t1 [THEN conjunct1]
    and len1 = t1 [THEN conjunct2, THEN conjunct1]
    and host1 = t1 [THEN conjunct2, THEN conjunct2, THEN conjunct2, THEN conjunct1]
    and chain1 = t1 [THEN conjunct2, THEN conjunct2, THEN conjunct2, THEN conjunct2, THEN conjunct2, THEN conjunct1]
  from sel1 s1 have s2: "selected_set v2 = {2, 0}" by simp
  from len1 s2 have l2: "length (filter nd_selected (canvas_nodes v2)) = 2" by simp
  from chain1 c1 dn have rec: "List.map_filter (resolve (nd_metadata (canvas_nodes v1 ! 2)))
       (filter nd_selected (canvas_nodes v2)) = nths (layers demo_model) (selected_set v2)"
    by blast
  have h2: "map host_listener (snd (click 2 1 v1)) =
     [[ShowModal ''comparison-modal'',
       RenderComparison [mkLayer ''conv1'' ''Conv2D'' 320, mkLayer ''fc'' ''Dense'' 1000]]]"
    unfolding host1 rec s2 by (simp add: l2 demo_model_def nths_example)
  define r1 where "r1 = fst (click 0 1 ring_view)"
  define r2 where "r2 = fst (click 1 1 r1)"
  define r3 where "r3 = fst (click 2 1 r2)"
  define r4 where "r4 = fst (click 3 1 r3)"
  have len: "length (canvas_nodes r1) = 4" "length (canvas_nodes r2) = 4" "length (canvas_nodes r3) = 4"
    by (simp_all add: r1_def r2_def r3_def length_canvas_nodes_click ring_view_length)
  have q0: "selected_set ring_view = {}"
    by (simp add: ring_view_def visualize_selection_empty)
  have "0 < length (canvas_nodes ring_view)" by (simp add: ring_view_length)
  note u1 = selection_event_policy [OF this d, of ring_model "''vertical''" new_Visualizer id "[]",
      unfolded Let_def, folded r1_def]
  from u1 [THEN conjunct1] q0 have q1: "selected_set r1 = {0}" by simp
  have "1 < length (canvas_nodes r1)" by (simp add: len)
  note u2 = selection_event_policy [OF this d, of ring_model "''vertical''" new_Visualizer id "[]",
      unfolded Let_def, folded r2_def]
  from u2 [THEN conjunct1] q1 have q2: "selected_set r2 = {1, 0}" by simp
  have "2 < length (canvas_nodes r2)" by (simp add: len)
  note u3 = selection_event_policy [OF this d, of ring_model "''vertical''" new_Visualizer id "[]",
      unfolded Let_def, folded r3_def]
  from u3 [THEN conjunct1] q2 have q3: "selected_set r3 = {2, 1, 0}" by simp
  have "3 < length (canvas_nodes r3)" by (simp add: len)
  note u4 = selection_event_policy [OF this d, of ring_model "''vertical''" new_Visualizer id "[]",
      unfolded Let_def, folded r4_def]
  from u4 [THEN conjunct1] q3 have q4: "selected_set r4 = {3, 2, 1, 0}" by simp
  from u4 [THEN conjunct2, THEN conjunct1] q4
  have l4: "length (filter nd_selected (canvas_nodes r4)) = 4" by simp
  have h4: "map host_listener (snd (click 3 1 r3)) =
        [[ShowToast ''warning'' ''Select up to 3 layers to compare'']]"
    unfolding u4 [THEN conjunct2, THEN conjunct2, THEN conjunct2, THEN conjunct1]
    by (simp add: l4)
  from h1 h2 h4 q4 show ?thesis
    unfolding v1_def r1_def r2_def r3_def r4_def by (simp add: insert_commute)
qed

text \<open>
  The claim as stated fails in two ways. In the tree layout the document order is the
  order of the type groups: with the layers a, b, c of types Conv2D, ReLU, Conv2D,
  selecting b and c yields the comparison of c and b. With two layers of one name,
  selecting both yields the first record twice, not the two records.
\<close>

theorem comparison_records_counterexample:
  "layers tree_model =
     [mkLayer ''a'' ''Conv2D'' 320, mkLayer ''b'' ''ReLU'' 0, mkLayer ''c'' ''Conv2D'' 640] \<and>
   map nd_layer (filter nd_selected (canvas_nodes (fst (click 1 1 (fst (click 2 1 tree_view)))))) =
     [mkLayer ''c'' ''Conv2D'' 640, mkLayer ''b'' ''ReLU'' 0] \<and>
   map host_listener (snd (click 1 1 (fst (click 2 1 tree_view)))) =
     [[ShowModal ''comparison-modal'',
       RenderComparison [mkLayer ''c'' ''Conv2D'' 640, mkLayer ''b'' ''ReLU'' 0]]] \<and>
   map nd_layer (filter nd_selected (canvas_nodes (fst (click 1 1 (fst (click 0 1 dup_view)))))) =
     [mkLayer ''fc'' ''Dense'' 10, mkLayer ''fc'' ''Dense'' 20] \<and>
   map host_listener (snd (click 1 1 (fst (click 0 1 dup_view)))) =
     [[ShowModal ''comparison-modal'',
       RenderComparison [mkLayer ''fc'' ''Dense'' 10, mkLayer ''fc'' ''Dense'' 10]]]"
  by (simp add: tree_view_def dup_view_def tree_model_def dup_model_def eval_defs click_defs)

text \<open>
  C10. In a state that shows a model (any layout, after any clicks and searches) the
  selection event carries, for every selected node, the first layer of the model whose name
  is the name the node shows. So with two layers of one name, the earlier being the first of
  that name, selecting only the node of the later layer yields the earlier layer, and
  selecting both nodes yields the earlier layer twice.
\<close>

theorem selection_resolves_first_name:
  assumes r: "rendered metadata v" and k: "k < length (canvas_nodes v)" and d: "d \<noteq> 2"
  shows
   "rendered metadata (snd (visualize metadata layout v0)) \<and>
    rendered metadata (fst (click k d v)) \<and>
    (let sel = filter nd_selected (canvas_nodes (fst (click k d v)))
     in snd (click k d v) =
          [LayerSelection (length sel) (map (\<lambda>n. the (resolve metadata n)) sel)] \<and>
        (\<forall>n \<in> set sel. \<exists>i < length (layers metadata).
           resolve metadata n = Some (layers metadata ! i) \<and>
           name (layers metadata ! i) = nd_name n \<and>
           (\<forall>m < i. name (layers metadata ! m) \<noteq> nd_name n))) \<and>
    (\<forall>i j. i < j \<and> j < length (layers metadata) \<and>
        name (layers metadata ! i) = name (layers metadata ! j) \<and>
        (\<forall>m < i. name (layers metadata ! m) \<noteq> name (layers metadata ! j)) \<and>
        selected_set v = {} \<and> nd_layer (canvas_nodes v ! k) = layers metadata ! j \<longrightarrow>
        snd (click k d v) = [LayerSelection 1 [layers metadata ! i]] \<and>
        (\<forall>k' d'. k' < length (canvas_nodes v) \<and> k' \<noteq> k \<and> d' \<noteq> 2 \<and>
            nd_layer (canvas_nodes v ! k') = layers metadata ! i \<longrightarrow>
            snd (click k' d' (fst (click k d v))) =
              [LayerSelection 2 [layers metadata ! i, layers metadata ! i]]))"
proof -
  define v' where "v' = toggle_selected k v"
  have st: "fst (click k d v) = v'"
    using k d by (simp add: click_event v'_def)
  have r': "rendered metadata v'"
    unfolding v'_def using r by (rule rendered_toggle_selected)
  have md: "nd_metadata (canvas_nodes v ! k) = metadata"
    using r k by (simp add: rendered_def)
  have ev: "snd (click k d v) =
      [LayerSelection (length (filter nd_selected (canvas_nodes v')))
         (map (\<lambda>n. the (resolve metadata n)) (filter nd_selected (canvas_nodes v')))]"
    using k d by (simp add: click_event md v'_def [symmetric] records_rendered [OF r'])
  have first: "\<exists>i < length (layers metadata).
           resolve metadata n = Some (layers metadata ! i) \<and>
           name (layers metadata ! i) = nd_name n \<and>
           (\<forall>m < i. name (layers metadata ! m) \<noteq> nd_name n)"
    if "n \<in> set (filter nd_selected (canvas_nodes v'))" for n
  proof -
    from that have "n \<in> set (canvas_nodes v')" by simp
    with r' have "nd_name n = name (nd_layer n)" "nd_layer n \<in> set (layers metadata)"
      by (simp_all add: rendered_def)
    then show ?thesis by (rule resolve_first)
  qed
  have dup: "snd (click k d v) = [LayerSelection 1 [layers metadata ! i]] \<and>
        (\<forall>k' d'. k' < length (canvas_nodes v) \<and> k' \<noteq> k \<and> d' \<noteq> 2 \<and>
            nd_layer (canvas_nodes v ! k') = layers metadata ! i \<longrightarrow>
            snd (click k' d' (fst (click k d v))) =
              [LayerSelection 2 [layers metadata ! i, layers metadata ! i]])"
    if h: "i < j \<and> j < length (layers metadata) \<and>
        name (layers metadata ! i) = name (layers metadata ! j) \<and>
        (\<forall>m < i. name (layers metadata ! m) \<noteq> name (layers metadata ! j)) \<and>
        selected_set v = {} \<and> nd_layer (canvas_nodes v ! k) = layers metadata ! j" for i j
  proof
    from h have i: "i < length (layers metadata)" by simp
    have res: "resolve metadata n = Some (layers metadata ! i)"
      if "nd_name n = name (layers metadata ! j)" for n
      using that h i by (intro resolve_first_index) simp_all
    let ?nk = "(canvas_nodes v ! k)\<lparr>nd_selected := \<not> nd_selected (canvas_nodes v ! k)\<rparr>"
    from h have none: "\<forall>m < length (canvas_nodes v). \<not> nd_selected (canvas_nodes v ! m)"
      by (auto simp add: selected_set_def)
    then have selk: "nd_selected ?nk"
      using k by simp
    have sel1: "filter nd_selected (canvas_nodes v') = [?nk]"
      unfolding v'_def canvas_nodes_toggle_selected [OF k]
      using k selk none by (intro filter_single) simp_all
    have namek: "nd_name ?nk = name (layers metadata ! j)"
      using r k h by (simp add: rendered_def)
    show "snd (click k d v) = [LayerSelection 1 [layers metadata ! i]]"
      by (simp add: ev sel1 res [OF namek])
    show "\<forall>k' d'. k' < length (canvas_nodes v) \<and> k' \<noteq> k \<and> d' \<noteq> 2 \<and>
            nd_layer (canvas_nodes v ! k') = layers metadata ! i \<longrightarrow>
            snd (click k' d' (fst (click k d v))) =
              [LayerSelection 2 [layers metadata ! i, layers metadata ! i]]"
    proof (intro allI impI)
      fix k' d' :: nat
      assume a: "k' < length (canvas_nodes v) \<and> k' \<noteq> k \<and> d' \<noteq> 2 \<and>
            nd_layer (canvas_nodes v ! k') = layers metadata ! i"
      define v'' where "v'' = toggle_selected k' v'"
      have k'': "k' < length (canvas_nodes v')"
        using a by (simp add: v'_def length_canvas_nodes_toggle_selected)
      have r'': "rendered metadata v''"
        unfolding v''_def using r' by (rule rendered_toggle_selected)
      have md': "nd_metadata (canvas_nodes v' ! k') = metadata"
        using r' k'' by (simp add: rendered_def)
      have ev2: "snd (click k' d' v') =
        [LayerSelection (length (filter nd_selected (canvas_nodes v'')))
           (map (\<lambda>n. the (resolve metadata n)) (filter nd_selected (canvas_nodes v'')))]"
        using k'' a by (simp add: click_event md' v''_def [symmetric] records_rendered [OF r''])
      have set2: "selected_set v'' = {k, k'}"
        using h k a k''
        by (auto simp add: v''_def v'_def selected_set_toggle_selected)
      have len2: "length (filter nd_selected (canvas_nodes v'')) = 2"
        using a by (simp add: length_selected_card set2)
      have layers'': "map nd_layer (canvas_nodes v'') = map nd_layer (canvas_nodes v)"
        by (simp add: v''_def v'_def nd_layer_toggle_selected)
      have len'': "length (canvas_nodes v'') = length (canvas_nodes v)"
        by (simp add: v''_def v'_def length_canvas_nodes_toggle_selected)
      have "the (resolve metadata n) = layers metadata ! i"
        if "n \<in> set (filter nd_selected (canvas_nodes v''))" for n
      proof -
        from that obtain m where m: "m < length (canvas_nodes v'')" "canvas_nodes v'' ! m = n"
          "nd_selected n"
          by (auto simp add: in_set_conv_nth)
        then have "m \<in> selected_set v''" by (simp add: selected_set_def)
        with set2 have mk: "m = k \<or> m = k'" by simp
        from m len'' have "nd_layer n = map nd_layer (canvas_nodes v'') ! m" by simp
        also have "\<dots> = nd_layer (canvas_nodes v ! m)"
          using m len'' by (simp add: layers'')
        finally have "nd_layer n = layers metadata ! j \<or> nd_layer n = layers metadata ! i"
          using mk h a by auto
        moreover from r'' m have "nd_name n = name (nd_layer n)"
          by (auto simp add: rendered_def)
        ultimately have "nd_name n = name (layers metadata ! j)"
          using h by auto
        from res [OF this] show ?thesis by simp
      qed
      then have "map (\<lambda>n. the (resolve metadata n)) (filter nd_selected (canvas_nodes v'')) =
          [layers metadata ! i, layers metadata ! i]"
        using len2 by (intro all_equal_two) auto
      with ev2 len2 show "snd (click k' d' (fst (click k d v))) =
              [LayerSelection 2 [layers metadata ! i, layers metadata ! i]]"
        by (simp add: st)
    qed
  qed
  show ?thesis
    unfolding Let_def st
  proof (intro conjI)
    show "rendered metadata (snd (visualize metadata layout v0))"
      by (rule rendered_visualize)
    show "rendered metadata v'"
      by (rule r')
    show "snd (click k d v) =
      [LayerSelection (length (filter nd_selected (canvas_nodes v')))
         (map (\<lambda>n. the (resolve metadata n)) (filter nd_selected (canvas_nodes v')))]"
      by (rule ev)
    show "\<forall>n \<in> set (filter nd_selected (canvas_nodes v')). \<exists>i < length (layers metadata).
           resolve metadata n = Some (layers metadata ! i) \<and>
           name (layers metadata ! i) = nd_name n \<and>
           (\<forall>m < i. name (layers metadata ! m) \<noteq> nd_name n)"
      using first by (intro ballI)
    show "\<forall>i j. i < j \<and> j < length (layers metadata) \<and>
        name (layers metadata ! i) = name (layers metadata ! j) \<and>
        (\<forall>m < i. name (layers metadata ! m) \<noteq> name (layers metadata ! j)) \<and>
        selected_set v = {} \<and> nd_layer (canvas_nodes v ! k) = layers metadata ! j \<longrightarrow>
        snd (click k d v) = [LayerSelection 1 [layers metadata ! i]] \<and>
        (\<forall>k' d'. k' < length (canvas_nodes v) \<and> k' \<noteq> k \<and> d' \<noteq> 2 \<and>
            nd_layer (canvas_nodes v ! k') = layers metadata ! i \<longrightarrow>
            snd (click k' d' v') =
              [LayerSelection 2 [layers metadata ! i, layers metadata ! i]])"
      using dup unfolding st by (intro allI impI)
  qed
qed

lemma dup_view_facts:
  "rendered dup_model dup_view" "selected_set dup_view = {}" "length (canvas_nodes dup_view) = 2"
  "nd_layer (canvas_nodes dup_view ! 0) = mkLayer ''fc'' ''Dense'' 10"
  "nd_layer (canvas_nodes dup_view ! 1) = mkLayer ''fc'' ''Dense'' 20"
  "layers dup_model = [mkLayer ''fc'' ''Dense'' 10, mkLayer ''fc'' ''Dense'' 20]"
  by (simp_all add: dup_view_def rendered_visualize visualize_selection_empty)
     (simp_all add: dup_model_def eval_defs)

theorem selection_resolves_first_name_witness:
  "snd (click 1 1 dup_view) = [LayerSelection 1 [mkLayer ''fc'' ''Dense'' 10]] \<and>
   snd (click 0 1 (fst (click 1 1 dup_view))) =
     [LayerSelection 2 [mkLayer ''fc'' ''Dense'' 10, mkLayer ''fc'' ''Dense'' 10]] \<and>
   nd_layer (canvas_nodes dup_view ! 1) = mkLayer ''fc'' ''Dense'' 20 \<and>
   mkLayer ''fc'' ''Dense'' 20 \<noteq> mkLayer ''fc'' ''Dense'' 10"
proof -
  have k: "1 < length (canvas_nodes dup_view)" and d: "(1::nat) \<noteq> 2"
    by (simp_all add: dup_view_facts)
  note t = selection_resolves_first_name [OF dup_view_facts(1) k d, of None new_Visualizer]
  have nm: "name (mkLayer ''fc'' ''Dense'' 10) = name (mkLayer ''fc'' ''Dense'' 20)"
    by (simp add: mkLayer_def)
  from t have dup: "snd (click 1 1 dup_view) = [LayerSelection 1 [layers dup_model ! 0]] \<and>
        (\<forall>k' d'. k' < length (canvas_nodes dup_view) \<and> k' \<noteq> 1 \<and> d' \<noteq> 2 \<and>
            nd_layer (canvas_nodes dup_view ! k') = layers dup_model ! 0 \<longrightarrow>
            snd (click k' d' (fst (click 1 1 dup_view))) =
              [LayerSelection 2 [layers dup_model ! 0, layers dup_model ! 0]])"
    using dup_view_facts nm
    by (elim conjE allE [of _ 0] allE [of _ 1]) simp
  then have both: "snd (click 0 1 (fst (click 1 1 dup_view))) =
              [LayerSelection 2 [layers dup_model ! 0, layers dup_model ! 0]]"
    using dup_view_facts by (elim conjE allE [of _ 0] allE [of _ 1]) simp
  from dup both dup_view_facts(5) show ?thesis
    by (simp add: dup_view_facts(6) mkLayer_def)
qed

section \<open>Rendering a model\<close>

text \<open>
  C3, as amended. \<^verbatim>\<open>visualize\<close> keeps the scale, both translations and the search term
  of the state it is called in; every node it leaves on the canvas is new and carries none
  of the classes selected, dimmed and highlighted, so the selection is empty. The view
  transform is (1, 0, 0) after \<^verbatim>\<open>reset()\<close> and in a new visualizer, whose search term is
  empty.
\<close>

theorem visualize_keeps_view_and_term:
  "scale (snd (visualize metadata layout v)) = scale v \<and>
   translateX (snd (visualize metadata layout v)) = translateX v \<and>
   translateY (snd (visualize metadata layout v)) = translateY v \<and>
   searchTerm (snd (visualize metadata layout v)) = searchTerm v \<and>
   (\<forall>n \<in> set (canvas_nodes (snd (visualize metadata layout v))).
      \<not> nd_selected n \<and> \<not> nd_dimmed n \<and> \<not> nd_highlighted n) \<and>
   selected_set (snd (visualize metadata layout v)) = {} \<and>
   scale (reset v) = 1 \<and> translateX (reset v) = 0 \<and> translateY (reset v) = 0 \<and>
   scale new_Visualizer = 1 \<and> translateX new_Visualizer = 0 \<and> translateY new_Visualizer = 0 \<and>
   searchTerm new_Visualizer = []"
proof -
  have fresh: "\<forall>n \<in> set (canvas_nodes (snd (visualize metadata layout v))).
      \<not> nd_selected n \<and> \<not> nd_dimmed n \<and> \<not> nd_highlighted n"
    using visualize_fresh_nodes [of metadata layout v] by (simp add: fresh_node_def)
  then have sel: "selected_set (snd (visualize metadata layout v)) = {}"
    by (auto simp add: selected_set_def)
  have rst: "scale (reset v) = 1 \<and> translateX (reset v) = 0 \<and> translateY (reset v) = 0"
    by (simp add: reset_def render_def split: option.splits)
  have init: "scale new_Visualizer = 1 \<and> translateX new_Visualizer = 0 \<and>
    translateY new_Visualizer = 0 \<and> searchTerm new_Visualizer = []"
    by (simp add: new_Visualizer_def)
  from visualize_keeps_view [of metadata layout v] fresh sel rst init show ?thesis
    by blast
qed

theorem visualize_keeps_view_and_term_witness:
  "scale (snd (visualize demo_model (Some ''tree'') (search id ''conv'' (zoom ''in'' demo_view)))) = 11 / 10 \<and>
   searchTerm (snd (visualize demo_model (Some ''tree'') (search id ''conv'' (zoom ''in'' demo_view)))) = ''conv'' \<and>
   \<not> nd_selected (canvas_nodes (snd (visualize demo_model (Some ''tree'') (fst (click 0 1 demo_view)))) ! 0) \<and>
   length (canvas_nodes (snd (visualize demo_model (Some ''tree'') (fst (click 0 1 demo_view))))) = 3"
proof -
  let ?v = "search id ''conv'' (zoom ''in'' demo_view)"
  let ?w = "snd (visualize demo_model (Some ''tree'') (fst (click 0 1 demo_view)))"
  have sc: "scale ?v = 11 / 10" "searchTerm ?v = ''conv''"
    by (simp_all add: search_def zoom_def demo_view_def visualize_keeps_view new_Visualizer_def
          toLowerCase_def toLowerChar_def is_ascii_def)
  have len: "length (canvas_nodes ?w) = 3"
    by (simp add: demo_model_def eval_defs)
  then have mem: "canvas_nodes ?w ! 0 \<in> set (canvas_nodes ?w)"
    by simp
  show ?thesis
    using visualize_keeps_view_and_term [of demo_model "Some ''tree''" ?v]
      visualize_keeps_view_and_term [of demo_model "Some ''tree''" "fst (click 0 1 demo_view)"]
      sc len mem
    by simp
qed

text \<open>
  The claim as stated fails: a render after a zoom step keeps the scale 1.1, and a render
  after a search keeps the term.
\<close>

theorem render_keeps_view_counterexample:
  "scale (snd (visualize demo_model None (zoom ''in'' demo_view))) \<noteq> 1 \<and>
   searchTerm (snd (visualize demo_model None (search id ''conv'' demo_view))) \<noteq> []"
  by (simp add: visualize_keeps_view zoom_def search_def demo_view_def new_Visualizer_def
        toLowerCase_def is_ascii_def)

section \<open>Switching the layout\<close>





section \<open>Sizing without parameters\<close>

lemma Math_max_zeros: "xs \<noteq> [] \<Longrightarrow> \<forall>x \<in> set xs. x = 0 \<Longrightarrow> Math_max xs = Fin 0"
proof (induction xs)
  case Nil
  then show ?case by simp
next
  case (Cons x xs)
  then show ?case by (cases xs) simp_all
qed

lemma relativeSize_zero_model:
  assumes "layers metadata \<noteq> []" "\<forall>l \<in> set (layers metadata). parameters l = 0"
    "layer \<in> set (layers metadata)"
  shows "relativeSize layer metadata = NaN"
proof -
  have "maxParams metadata = Fin 0"
    unfolding maxParams_def using assms(1,2) by (intro Math_max_zeros) auto
  with assms(2,3) show ?thesis
    by (simp add: relativeSize_def)
qed

text \<open>
  C1 fails on the code. For the model of two layers with 0 parameters \<^verbatim>\<open>maxParams\<close> is 0
  and \<^verbatim>\<open>relativeSize\<close> is \<open>0 / 0\<close>, which is NaN, not 0: in every layout the size bar
  of each node gets a NaN percentage, and the widths computed from it are NaN.
\<close>

theorem zero_parameters_give_NaN:
  "maxParams zero_model = Fin 0 \<and>
   relativeSize (mkLayer ''a'' ''Dense'' 0) zero_model = NaN \<and>
   map nd_sizeBar (canvas_nodes (snd (visualize zero_model (Some ''vertical'') new_Visualizer))) =
     [Percent NaN, Percent NaN] \<and>
   map nd_maxWidth (canvas_nodes (snd (visualize zero_model (Some ''vertical'') new_Visualizer))) =
     [Some (Px NaN), Some (Px NaN)] \<and>
   map nd_width (canvas_nodes (snd (visualize zero_model (Some ''horizontal'') new_Visualizer))) =
     [Some (Px NaN), Some (Px NaN)] \<and>
   map nd_sizeBar (canvas_nodes (snd (visualize zero_model (Some ''circular'') new_Visualizer))) =
     [Percent NaN, Percent NaN] \<and>
   map nd_sizeBar (canvas_nodes (snd (visualize zero_model (Some ''tree'') new_Visualizer))) =
     [Percent NaN, Percent NaN]"
  by (simp add: zero_model_def eval_defs renderCircularLayout_def)

section \<open>The circular layout\<close>

lemma sqrt_sum_squares_pos:
  assumes "0 < (x::real)"
  shows "sqrt (x\<^sup>2 + y\<^sup>2) = x * sqrt (1 + (y / x)\<^sup>2)"
proof -
  have "x\<^sup>2 + y\<^sup>2 = x\<^sup>2 * (1 + (y / x)\<^sup>2)"
    using assms by (simp add: field_simps power2_eq_square)
  then show ?thesis
    using assms by (simp add: real_sqrt_mult)
qed

lemma sqrt_sum_squares_neg:
  assumes "(x::real) < 0"
  shows "sqrt (x\<^sup>2 + y\<^sup>2) = - x * sqrt (1 + (y / x)\<^sup>2)"
  using sqrt_sum_squares_pos [of "- x" "y"] assms by simp

lemma Math_atan2_polar:
  assumes "x \<noteq> 0 \<or> y \<noteq> 0"
  shows "- pi < Math_atan2 y x \<and> Math_atan2 y x \<le> pi \<and>
         x = sqrt (x\<^sup>2 + y\<^sup>2) * cos (Math_atan2 y x) \<and>
         y = sqrt (x\<^sup>2 + y\<^sup>2) * sin (Math_atan2 y x)"
proof -
  have pos: "0 < sqrt (1 + (y / x)\<^sup>2)"
    by (simp add: add_pos_nonneg)
  consider (right) "0 < x" | (upper) "x < 0" "0 \<le> y" | (lower) "x < 0" "y < 0"
    | (up) "x = 0" "0 < y" | (down) "x = 0" "y < 0"
    using assms by linarith
  then show ?thesis
  proof cases
    case right
    have "- pi < arctan (y / x)" "arctan (y / x) \<le> pi"
      using arctan_lbound [of "y / x"] arctan_ubound [of "y / x"] pi_gt_zero by linarith+
    with right pos show ?thesis
      by (simp add: Math_atan2_def sqrt_sum_squares_pos cos_arctan sin_arctan)
  next
    case upper
    then have "y / x \<le> 0" by (simp add: divide_nonneg_neg)
    then have "arctan (y / x) \<le> 0" by (simp add: arctan_le_zero_iff)
    then have "- pi < arctan (y / x) + pi" "arctan (y / x) + pi \<le> pi"
      using arctan_lbound [of "y / x"] pi_gt_zero by linarith+
    with upper pos show ?thesis
      by (simp add: Math_atan2_def sqrt_sum_squares_neg cos_arctan sin_arctan)
  next
    case lower
    then have "0 < y / x" by (simp add: divide_neg_neg)
    then have "0 < arctan (y / x)" by (simp add: zero_less_arctan_iff)
    then have "- pi < arctan (y / x) - pi" "arctan (y / x) - pi \<le> pi"
      using arctan_ubound [of "y / x"] pi_gt_zero by linarith+
    with lower pos show ?thesis
      by (simp add: Math_atan2_def sqrt_sum_squares_neg cos_arctan sin_arctan cos_diff sin_diff)
  next
    case up
    then show ?thesis
      using pi_gt_zero by (simp add: Math_atan2_def)
  next
    case down
    then show ?thesis
      by (simp add: Math_atan2_def) (use pi_gt_zero in linarith)
  qed
qed

lemma circularNode_fields:
  "nd_layer (circularNode layout metadata i layer) = layer \<and>
   nd_left (circularNode layout metadata i layer) =
     Some (real_of_int (circularSize (length (layers metadata))) / 2 +
           real_of_int (circularRadius (length (layers metadata))) *
           cos ((real i / real (length (layers metadata))) * 2 * pi - pi / 2)) \<and>
   nd_top (circularNode layout metadata i layer) =
     Some (real_of_int (circularSize (length (layers metadata))) / 2 +
           real_of_int (circularRadius (length (layers metadata))) *
           sin ((real i / real (length (layers metadata))) * 2 * pi - pi / 2))"
  by (simp add: circularNode_def createLayerNode_def layerAngle_def Let_def)

lemma circularLine_fields:
  fixes metadata i
  defines "N \<equiv> length (layers metadata)"
  defines "px \<equiv> \<lambda>i. real_of_int (circularSize N) / 2 +
           real_of_int (circularRadius N) * cos ((real i / real N) * 2 * pi - pi / 2)"
  defines "py \<equiv> \<lambda>i. real_of_int (circularSize N) / 2 +
           real_of_int (circularRadius N) * sin ((real i / real N) * 2 * pi - pi / 2)"
  shows "ln_left (circularLine metadata i) = px i \<and>
         ln_top (circularLine metadata i) = py i \<and>
         ln_width (circularLine metadata i) = sqrt ((px (i + 1) - px i)\<^sup>2 + (py (i + 1) - py i)\<^sup>2) \<and>
         ln_rotate (circularLine metadata i) =
           Math_atan2 (py (i + 1) - py i) (px (i + 1) - px i) * 180 / pi"
  by (simp add: circularLine_def createConnectionLine_def layerAngle_def Let_def N_def px_def py_def)

text \<open>
  C4. For a model of \<open>N \<ge> 1\<close> layers rendered in the circular layout: the radius is
  \<open>N * 15\<close> clamped to [200, 300]; the container is a square of side
  \<open>2 * radius + 150 + 100\<close>, which is also the height of the canvas; there are \<open>N\<close>
  nodes, node \<open>i\<close> for layer \<open>i\<close> at the centre plus \<open>radius * (cos \<theta>, sin \<theta>)\<close> with
  \<open>\<theta> = (i / N) * 2\<pi> - \<pi> / 2\<close>, so node 0 is at the top, and for \<open>N = 4\<close> the angles
  are \<open>-\<pi>/2, 0, \<pi>/2, \<pi>\<close>; the connectors are exactly \<open>N - 1\<close> lines, line \<open>i\<close> from
  node \<open>i\<close> towards node \<open>i + 1\<close> with the distance of the two points as its length and
  \<^verbatim>\<open>atan2\<close> of the difference, in degrees, as its rotation (which is the direction from
  the one point to the other). No line starts at the last node.
\<close>

theorem circular_layout_geometry:
  assumes ne: "layers metadata \<noteq> []"
  shows "let N = length (layers metadata);
        radius = circularRadius N;
        side = circularSize N;
        center = real_of_int side / 2;
        \<theta> = (\<lambda>i. (real i / real N) * 2 * pi - pi / 2);
        px = (\<lambda>i. center + real_of_int radius * cos (\<theta> i));
        py = (\<lambda>i. center + real_of_int radius * sin (\<theta> i));
        v' = snd (visualize metadata (Some ''circular'') v);
        nodes = canvas_nodes v';
        lines = connection_lines (canvas_children v')
    in radius = min 300 (max 200 (int N * 15)) \<and>
       side = 2 * radius + 150 + 100 \<and>
       canvasHeight v' = Some side \<and>
       map_option vc_size (container v') = Some (Some side) \<and>
       length nodes = N \<and>
       (\<forall>i<N. nd_layer (nodes ! i) = layers metadata ! i \<and>
              nd_left (nodes ! i) = Some (px i) \<and> nd_top (nodes ! i) = Some (py i)) \<and>
       \<theta> 0 = - pi / 2 \<and>
       nd_left (nodes ! 0) = Some center \<and> nd_top (nodes ! 0) = Some (center - real_of_int radius) \<and>
       (N = 4 \<longrightarrow> map \<theta> [0, 1, 2, 3] = [- pi / 2, 0, pi / 2, pi]) \<and>
       length lines = N - 1 \<and>
       filter is_connector (canvas_children v') = map ConnectionLine lines \<and>
       (\<forall>i<N - 1.
          ln_left (lines ! i) = px i \<and> ln_top (lines ! i) = py i \<and>
          ln_width (lines ! i) = sqrt ((px (i + 1) - px i)\<^sup>2 + (py (i + 1) - py i)\<^sup>2) \<and>
          ln_rotate (lines ! i) = Math_atan2 (py (i + 1) - py i) (px (i + 1) - px i) * 180 / pi \<and>
          (px (i + 1) \<noteq> px i \<or> py (i + 1) \<noteq> py i \<longrightarrow>
             px (i + 1) - px i = ln_width (lines ! i) * cos (ln_rotate (lines ! i) * pi / 180) \<and>
             py (i + 1) - py i = ln_width (lines ! i) * sin (ln_rotate (lines ! i) * pi / 180)))"
proof -
  define N where "N = length (layers metadata)"
  define radius where "radius = circularRadius N"
  define side where "side = circularSize N"
  define center where "center = real_of_int side / 2"
  define \<theta> where "\<theta> = (\<lambda>i. (real i / real N) * 2 * pi - pi / 2)"
  define px where "px = (\<lambda>i. center + real_of_int radius * cos (\<theta> i))"
  define py where "py = (\<lambda>i. center + real_of_int radius * sin (\<theta> i))"
  define v' where "v' = snd (visualize metadata (Some ''circular'') v)"
  define nodes where "nodes = canvas_nodes v'"
  define lines where "lines = connection_lines (canvas_children v')"
  note defs = N_def radius_def side_def center_def \<theta>_def px_def py_def v'_def nodes_def lines_def
  from ne have Npos: "0 < N" by (simp add: N_def)
  have r: "radius = min 300 (max 200 (int N * 15))"
    by (simp add: radius_def circularRadius_def)
  have s: "side = 2 * radius + 150 + 100"
    by (simp add: side_def radius_def circularSize_def)
  have h: "canvasHeight v' = Some side" "map_option vc_size (container v') = Some (Some side)"
    using visualize_circular [of metadata v] by (simp_all add: v'_def side_def N_def)
  have len: "length nodes = N"
    by (simp add: nodes_def v'_def N_def canvas_nodes_children visualize_circular
          layer_nodes_renderCircularLayout)
  have node: "nd_layer (nodes ! i) = layers metadata ! i \<and>
              nd_left (nodes ! i) = Some (px i) \<and> nd_top (nodes ! i) = Some (py i)"
    if "i < N" for i
    using that circular_node_nth [of i metadata v] circularNode_fields [of "''circular''" metadata i "layers metadata ! i"]
    by (simp add: defs)
  have t0: "\<theta> 0 = - pi / 2"
    by (simp add: \<theta>_def)
  have top: "nd_left (nodes ! 0) = Some center \<and> nd_top (nodes ! 0) = Some (center - real_of_int radius)"
    using node [OF Npos] by (simp add: px_def py_def t0)
  have four: "map \<theta> [0, 1, 2, 3] = [- pi / 2, 0, pi / 2, pi]" if "N = 4"
    using that by (simp add: \<theta>_def)
  have ls: "lines = map (circularLine metadata) [0..<N - 1]"
    using circular_lines [of "''circular''" metadata]
    by (simp add: lines_def v'_def visualize_circular N_def)
  have llen: "length lines = N - 1"
    by (simp add: ls)
  have conn: "filter is_connector (canvas_children v') = map ConnectionLine lines"
    using circular_lines [of "''circular''" metadata]
    by (simp add: ls v'_def visualize_circular N_def)
  have line: "ln_left (lines ! i) = px i \<and> ln_top (lines ! i) = py i \<and>
          ln_width (lines ! i) = sqrt ((px (i + 1) - px i)\<^sup>2 + (py (i + 1) - py i)\<^sup>2) \<and>
          ln_rotate (lines ! i) = Math_atan2 (py (i + 1) - py i) (px (i + 1) - px i) * 180 / pi \<and>
          (px (i + 1) \<noteq> px i \<or> py (i + 1) \<noteq> py i \<longrightarrow>
             px (i + 1) - px i = ln_width (lines ! i) * cos (ln_rotate (lines ! i) * pi / 180) \<and>
             py (i + 1) - py i = ln_width (lines ! i) * sin (ln_rotate (lines ! i) * pi / 180))"
    if "i < N - 1" for i
  proof -
    have li: "lines ! i = circularLine metadata i"
      using that by (simp add: ls)
    have f: "ln_left (lines ! i) = px i" "ln_top (lines ! i) = py i"
      "ln_width (lines ! i) = sqrt ((px (i + 1) - px i)\<^sup>2 + (py (i + 1) - py i)\<^sup>2)"
      "ln_rotate (lines ! i) = Math_atan2 (py (i + 1) - py i) (px (i + 1) - px i) * 180 / pi"
      using circularLine_fields [of metadata i]
      by (simp_all add: li px_def py_def \<theta>_def center_def side_def radius_def N_def)
    have "px (i + 1) - px i = ln_width (lines ! i) * cos (ln_rotate (lines ! i) * pi / 180) \<and>
          py (i + 1) - py i = ln_width (lines ! i) * sin (ln_rotate (lines ! i) * pi / 180)"
      if "px (i + 1) \<noteq> px i \<or> py (i + 1) \<noteq> py i"
      using Math_atan2_polar [of "px (i + 1) - px i" "py (i + 1) - py i"] that
      by (simp add: f)
    with f show ?thesis by blast
  qed
  show ?thesis
    unfolding Let_def
    using r s h len node t0 top four llen conn line
    unfolding defs
    by blast
qed

theorem circular_layout_geometry_witness:
  "canvasHeight (snd (visualize ring_model (Some ''circular'') new_Visualizer)) = Some 650 \<and>
   length (canvas_nodes (snd (visualize ring_model (Some ''circular'') new_Visualizer))) = 4 \<and>
   nd_left (canvas_nodes (snd (visualize ring_model (Some ''circular'') new_Visualizer)) ! 0) = Some 325 \<and>
   nd_top (canvas_nodes (snd (visualize ring_model (Some ''circular'') new_Visualizer)) ! 0) = Some 125 \<and>
   nd_left (canvas_nodes (snd (visualize ring_model (Some ''circular'') new_Visualizer)) ! 1) = Some 525 \<and>
   nd_top (canvas_nodes (snd (visualize ring_model (Some ''circular'') new_Visualizer)) ! 1) = Some 325 \<and>
   nd_left (canvas_nodes (snd (visualize ring_model (Some ''circular'') new_Visualizer)) ! 3) = Some 125 \<and>
   length (connection_lines (canvas_children (snd (visualize ring_model (Some ''circular'') new_Visualizer)))) = 3 \<and>
   ln_width (connection_lines (canvas_children (snd (visualize ring_model (Some ''circular'') new_Visualizer))) ! 0) = sqrt 80000 \<and>
   ln_rotate (connection_lines (canvas_children (snd (visualize ring_model (Some ''circular'') new_Visualizer))) ! 0) = 45 \<and>
   (200::real) = sqrt 80000 * cos (45 * pi / 180) \<and> (200::real) = sqrt 80000 * sin (45 * pi / 180)"
proof -
  note g = circular_layout_geometry [OF ring_model_facts(1), of new_Visualizer, unfolded Let_def ring_model_facts]
  have a0: "(0::real) / 4 * 2 * pi - pi / 2 = - (pi / 2)" by simp
  have a1: "(1::real) / 4 * 2 * pi - pi / 2 = 0" by simp
  have a3: "(3::real) / 4 * 2 * pi - pi / 2 = pi" by simp
  have n1: "nd_left (canvas_nodes (snd (visualize ring_model (Some ''circular'') new_Visualizer)) ! 1) = Some 525 \<and>
     nd_top (canvas_nodes (snd (visualize ring_model (Some ''circular'') new_Visualizer)) ! 1) = Some 325"
    using g [THEN conjunct2, THEN conjunct2, THEN conjunct2, THEN conjunct2, THEN conjunct2, THEN conjunct1, rule_format, of 1]
    by simp
  have n3: "nd_left (canvas_nodes (snd (visualize ring_model (Some ''circular'') new_Visualizer)) ! 3) = Some 125"
    using g [THEN conjunct2, THEN conjunct2, THEN conjunct2, THEN conjunct2, THEN conjunct2, THEN conjunct1, rule_format, of 3]
    by simp
  have l0: "ln_width (connection_lines (canvas_children (snd (visualize ring_model (Some ''circular'') new_Visualizer))) ! 0) = sqrt 80000 \<and>
   ln_rotate (connection_lines (canvas_children (snd (visualize ring_model (Some ''circular'') new_Visualizer))) ! 0) = 45"
    using g [THEN conjunct2, THEN conjunct2, THEN conjunct2, THEN conjunct2, THEN conjunct2,
         THEN conjunct2, THEN conjunct2, THEN conjunct2, THEN conjunct2, THEN conjunct2, THEN conjunct2, THEN conjunct2, rule_format, of 0]
    by (simp add: Math_atan2_def arctan_one)
  have pol: "(200::real) = sqrt 80000 * cos (45 * pi / 180) \<and>
      (200::real) = sqrt 80000 * sin (45 * pi / 180)"
    using g [THEN conjunct2, THEN conjunct2, THEN conjunct2, THEN conjunct2, THEN conjunct2,
         THEN conjunct2, THEN conjunct2, THEN conjunct2, THEN conjunct2, THEN conjunct2, THEN conjunct2, THEN conjunct2, rule_format, of 0]
    by (clarsimp simp add: Math_atan2_def arctan_one)
  from g n1 n3 l0 pol show ?thesis
    by simp
qed

section \<open>Counting placements and connectors\<close>

text \<open>
  The counts hold for the three chain layouts, and for the tree layout of a model none of
  whose types is an inherited property name; the tree layout of any other model throws.
\<close>

lemma chain_layout_counts:
  assumes "layout \<in> {''vertical'', ''horizontal'', ''circular''}"
  shows "fst (visualize metadata (Some layout) v) = None \<and>
         length (canvas_nodes (snd (visualize metadata (Some layout) v))) = length (layers metadata) \<and>
         length (filter is_connector (canvas_children (snd (visualize metadata (Some layout) v)))) =
           length (layers metadata) - 1"
proof -
  from assms consider "layout = ''vertical''" | "layout = ''horizontal''" | "layout = ''circular''"
    by blast
  then show ?thesis
  proof cases
    case 1
    then show ?thesis
      using visualize_vertical [of metadata v] vertical_counts [of "''vertical''" metadata]
      by (simp add: canvas_nodes_children)
  next
    case 2
    then show ?thesis
      using visualize_horizontal [of metadata v] horizontal_counts [of "''horizontal''" metadata]
      by (simp add: canvas_nodes_children)
  next
    case 3
    then show ?thesis
      using visualize_circular [of metadata v] circular_counts [of "''circular''" metadata]
      by (simp add: canvas_nodes_children)
  qed
qed

lemma tree_layout_counts:
  "(\<forall>l \<in> set (layers metadata). type l \<notin> set inherited_names) \<longrightarrow>
     fst (visualize metadata (Some ''tree'') v) = None \<and>
     length (canvas_nodes (snd (visualize metadata (Some ''tree'') v))) = length (layers metadata) \<and>
     filter is_connector (canvas_children (snd (visualize metadata (Some ''tree'') v))) = []"
proof
  assume ok: "\<forall>l \<in> set (layers metadata). type l \<notin> set inherited_names"
  then obtain es where es: "renderTreeLayout ''tree'' metadata = Inr es"
    using renderTreeLayout_result [of "''tree''" metadata] by auto
  from renderTreeLayout_count [OF es] show
    "fst (visualize metadata (Some ''tree'') v) = None \<and>
     length (canvas_nodes (snd (visualize metadata (Some ''tree'') v))) = length (layers metadata) \<and>
     filter is_connector (canvas_children (snd (visualize metadata (Some ''tree'') v))) = []"
    by (simp add: visualize_tree es canvas_nodes_children) (simp add: canvas_children_def)
qed

lemma tree_layout_throws:
  "(\<exists>l \<in> set (layers metadata). type l \<in> set inherited_names) \<longrightarrow>
     fst (visualize metadata (Some ''tree'') v) = Some TypeError \<and>
     container (snd (visualize metadata (Some ''tree'') v)) = None \<and>
     canvas_nodes (snd (visualize metadata (Some ''tree'') v)) = []"
proof
  assume "\<exists>l \<in> set (layers metadata). type l \<in> set inherited_names"
  then have "renderTreeLayout ''tree'' metadata = Inl TypeError"
    using renderTreeLayout_result [of "''tree''" metadata] by auto
  then show "fst (visualize metadata (Some ''tree'') v) = Some TypeError \<and>
     container (snd (visualize metadata (Some ''tree'') v)) = None \<and>
     canvas_nodes (snd (visualize metadata (Some ''tree'') v)) = []"
    by (simp add: visualize_tree canvas_nodes_def)
qed

text \<open>
  C5 fails on the code for the tree layout. The model has two layers, the second of type
  \<^verbatim>\<open>constructor\<close>: \<^verbatim>\<open>renderTreeLayout\<close> throws a \<^verbatim>\<open>TypeError\<close>, \<^verbatim>\<open>visualize\<close> never
  appends the container, and no node is placed.
\<close>

theorem tree_layout_throws_on_inherited_type:
  "fst (visualize inherited_model (Some ''tree'') new_Visualizer) = Some TypeError \<and>
   container (snd (visualize inherited_model (Some ''tree'') new_Visualizer)) = None \<and>
   canvas_nodes (snd (visualize inherited_model (Some ''tree'') new_Visualizer)) = [] \<and>
   length (layers inherited_model) = 2"
  by (simp add: inherited_model_def eval_defs)

end
